theory Spec2Isabelle
  imports Complex_Main "HOL-Library.Char_ord" "HOL-Library.AList"
begin

section \<open>The timeline generator of the server (generatePhonemeData in server.js)\<close>

text \<open>
  JavaScript numbers are modelled as real numbers: every constant of the generator is a
  short decimal and every claim below that fails does so by a margin far above rounding
  error. A text is a list of code units below 256 (the type \<open>char\<close>).
\<close>

subsection \<open>Character classes of the regular expressions\<close>

text \<open>\<open>String.prototype.toLowerCase\<close>, on code units below 256: A-Z and the upper-case
  letters of Latin-1 (U+00C0 to U+00DE without the multiplication sign) move up by 32.\<close>

definition toLowerCase_char :: "char \<Rightarrow> char" where
  "toLowerCase_char c =
     (let n = (of_char c :: nat)
      in if (65 \<le> n \<and> n \<le> 90) \<or> (192 \<le> n \<and> n \<le> 222 \<and> n \<noteq> 215)
         then char_of (n + 32) else c)"

definition toLowerCase :: "string \<Rightarrow> string" where
  "toLowerCase s = map toLowerCase_char s"

text \<open>The class \<open>\s\<close> on code units below 256: tab, line feed, vertical tab, form feed,
  carriage return, space and the no-break space.\<close>

definition is_space :: "char \<Rightarrow> bool" where
  "is_space c \<longleftrightarrow> c \<in> {CHR 0x09, CHR 0x0A, CHR 0x0B, CHR 0x0C, CHR 0x0D, CHR 0x20, CHR 0xA0}"

text \<open>The class \<open>[a-z]\<close>: the 26 code units from 97 to 122.\<close>

definition is_az :: "char \<Rightarrow> bool" where
  "is_az c \<longleftrightarrow> c \<in> set ''abcdefghijklmnopqrstuvwxyz''"

text \<open>The class \<open>[.,!?;:]\<close>.\<close>

definition is_punct :: "char \<Rightarrow> bool" where
  "is_punct c \<longleftrightarrow> c \<in> set ''.,!?;:''"

text \<open>The characters that \<open>/[^a-z\s.,!?;:'-]/g\<close> leaves in the text.\<close>

definition keep_text :: "char \<Rightarrow> bool" where
  "keep_text c \<longleftrightarrow> is_az c \<or> is_space c \<or> is_punct c \<or> c = CHR 0x27 \<or> c = CHR ''-''"

text \<open>The characters that \<open>/[^a-z'-]/g\<close> leaves in a word.\<close>

definition keep_word :: "char \<Rightarrow> bool" where
  "keep_word c \<longleftrightarrow> is_az c \<or> c = CHR 0x27 \<or> c = CHR ''-''"

text \<open>\<open>'aeiou'.includes(c)\<close> for a single character.\<close>

definition isVowel :: "char \<Rightarrow> bool" where
  "isVowel c \<longleftrightarrow> c \<in> set ''aeiou''"

subsection \<open>Splitting the text\<close>

text \<open>\<open>s.split(/\s+/)\<close>: the pieces between maximal runs of white space; white space at
  either end leaves an empty piece there, and the empty text gives one empty piece.\<close>

lemma length_dropWhile_tail:
  "dropWhile P s = x # r \<Longrightarrow> length (dropWhile Q r) < length s"
proof -
  assume a: "dropWhile P s = x # r"
  have "length (dropWhile Q r) \<le> length r" by (rule length_dropWhile_le)
  also have "length r < length (dropWhile P s)" using a by simp
  also have "\<dots> \<le> length s" by (rule length_dropWhile_le)
  finally show ?thesis .
qed

function split_ws :: "string \<Rightarrow> string list" where
  "split_ws s =
     (case dropWhile (\<lambda>c. \<not> is_space c) s of
        [] \<Rightarrow> [s]
      | _ # r \<Rightarrow> takeWhile (\<lambda>c. \<not> is_space c) s # split_ws (dropWhile is_space r))"
  by pat_completeness auto

termination split_ws
  by (relation "measure length") (auto simp: length_dropWhile_tail)

declare split_ws.simps [simp del]

definition words_of :: "string \<Rightarrow> string list" where
  "words_of text = split_ws (filter keep_text (toLowerCase text))"

text \<open>\<open>rawWord.match(/([.,!?;:]+)$/)\<close>: the longest run of punctuation at the end of the
  word, empty when there is none.\<close>

definition punct_of :: "string \<Rightarrow> string" where
  "punct_of rawWord = rev (takeWhile is_punct (rev rawWord))"

subsection \<open>Constants and the viseme table\<close>

definition BASE_CHAR_DURATION :: real where "BASE_CHAR_DURATION = 0.06"
definition WORD_GAP :: real where "WORD_GAP = 0.07"
definition COMMA_PAUSE :: real where "COMMA_PAUSE = 0.2"
definition PERIOD_PAUSE :: real where "PERIOD_PAUSE = 0.35"
definition EXCLAIM_PAUSE :: real where "EXCLAIM_PAUSE = 0.3"
definition QUESTION_PAUSE :: real where "QUESTION_PAUSE = 0.3"

lemmas pause_consts = BASE_CHAR_DURATION_def WORD_GAP_def COMMA_PAUSE_def PERIOD_PAUSE_def
  EXCLAIM_PAUSE_def QUESTION_PAUSE_def

definition CHAR_TO_VISEME_table :: "(string \<times> string) list" where
  "CHAR_TO_VISEME_table =
    [(''th'', ''viseme_TH''), (''ch'', ''viseme_CH''), (''sh'', ''viseme_CH''),
     (''ng'', ''viseme_nn''), (''wh'', ''viseme_U''), (''ph'', ''viseme_FF''),
     (''ck'', ''viseme_kk''), (''qu'', ''viseme_kk''),
     (''a'', ''viseme_aa''), ([CHR 0xE1], ''viseme_aa''),
     (''e'', ''viseme_E''), ([CHR 0xE9], ''viseme_E''),
     (''i'', ''viseme_I''), ([CHR 0xED], ''viseme_I''),
     (''o'', ''viseme_O''), ([CHR 0xF3], ''viseme_O''),
     (''u'', ''viseme_U''), ([CHR 0xFA], ''viseme_U''),
     (''b'', ''viseme_PP''), (''p'', ''viseme_PP''), (''m'', ''viseme_PP''),
     (''f'', ''viseme_FF''), (''v'', ''viseme_FF''),
     (''t'', ''viseme_DD''), (''d'', ''viseme_DD''), (''n'', ''viseme_nn''),
     (''l'', ''viseme_DD''),
     (''k'', ''viseme_kk''), (''g'', ''viseme_kk''), (''q'', ''viseme_kk''),
     (''c'', ''viseme_kk''),
     (''s'', ''viseme_SS''), (''z'', ''viseme_SS''), (''x'', ''viseme_SS''),
     (''r'', ''viseme_RR''),
     (''j'', ''viseme_CH''), (''y'', ''viseme_CH''),
     (''w'', ''viseme_U''),
     (''h'', ''viseme_CH'')]"

definition CHAR_TO_VISEME :: "string \<rightharpoonup> string" where
  "CHAR_TO_VISEME = map_of CHAR_TO_VISEME_table"

text \<open>The pause after a word, by the punctuation found at its end.\<close>

definition pauseDuration :: "string \<Rightarrow> real" where
  "pauseDuration punct =
     (if CHR ''.'' \<in> set punct then PERIOD_PAUSE
      else if CHR ''!'' \<in> set punct then EXCLAIM_PAUSE
      else if CHR ''?'' \<in> set punct then QUESTION_PAUSE
      else if CHR '','' \<in> set punct then COMMA_PAUSE
      else WORD_GAP)"

subsection \<open>Events and the two loops\<close>

record phoneme =
  viseme :: string
  time :: real
  duration :: real
  intensity :: real

record phonemeData =
  phonemes :: "phoneme list"
  totalDuration :: real

text \<open>The state of the loops: the list \<open>phonemes\<close> built so far and \<open>currentTime\<close>.\<close>

type_synonym gen_state = "phoneme list \<times> real"

text \<open>\<open>digraph\<close> and \<open>viseme\<close> at index \<open>i\<close> of a word: the two-character entry of the
  table wins over the one-character entry.\<close>

definition digraph_at :: "string \<Rightarrow> nat \<Rightarrow> string" where
  "digraph_at word i = (if i < length word - 1 then take 2 (drop i word) else [])"

definition viseme_at :: "string \<Rightarrow> nat \<Rightarrow> string option" where
  "viseme_at word i =
     (case CHAR_TO_VISEME (digraph_at word i) of
        Some v \<Rightarrow> Some v
      | None \<Rightarrow> CHAR_TO_VISEME [word ! i])"

text \<open>The event pushed for the character at index \<open>i\<close> when the table gives \<open>v\<close>.\<close>

definition char_event :: "string \<Rightarrow> real \<Rightarrow> nat \<Rightarrow> real \<Rightarrow> string \<Rightarrow> phoneme" where
  "char_event word wordEmphasis i currentTime v =
     (let char = word ! i;
          vowel = isVowel char;
          d0 = (if vowel then BASE_CHAR_DURATION * 1.2 else BASE_CHAR_DURATION * 0.9);
          d = (if vowel \<and> i < length word - 1 \<and> \<not> isVowel (word ! (i + 1))
               then d0 * 1.15 else d0);
          inten = (if vowel then 0.75 else 0.5) * wordEmphasis
      in \<lparr>viseme = v, time = currentTime, duration = d, intensity = min 1 inten\<rparr>)"

text \<open>One pass through the body of the loop over the characters of a word, at index
  \<open>i < word.length\<close>. It returns the state and the index after the body, before the
  loop's own \<open>i++\<close>: the clock moves by \<open>BASE_CHAR_DURATION\<close> whether or not an event was
  pushed, and a digraph skips the next character.\<close>

definition char_step :: "string \<Rightarrow> real \<Rightarrow> nat \<Rightarrow> gen_state \<Rightarrow> gen_state \<times> nat" where
  "char_step word wordEmphasis i st =
     (case viseme_at word i of
        None \<Rightarrow> ((fst st, snd st + BASE_CHAR_DURATION), i)
      | Some v \<Rightarrow>
          ((fst st @ [char_event word wordEmphasis i (snd st) v],
            snd st + BASE_CHAR_DURATION),
           (if CHAR_TO_VISEME (digraph_at word i) \<noteq> None then i + 1 else i)))"

lemma char_step_index: "i \<le> snd (char_step word wordEmphasis i st)"
  by (simp add: char_step_def split: option.splits)

function char_loop :: "string \<Rightarrow> real \<Rightarrow> nat \<Rightarrow> gen_state \<Rightarrow> gen_state" where
  "char_loop word wordEmphasis i st =
     (if i < length word
      then char_loop word wordEmphasis (snd (char_step word wordEmphasis i st) + 1)
             (fst (char_step word wordEmphasis i st))
      else st)"
  by pat_completeness auto

termination char_loop
proof (relation "measure (\<lambda>(word, e, i, st). length word - i)")
  show "wf (measure (\<lambda>(word, e, i, st). length word - i))" by simp
next
  fix word :: string and wordEmphasis :: real and i :: nat and st :: gen_state
  assume "i < length word"
  moreover have "i \<le> snd (char_step word wordEmphasis i st)" by (rule char_step_index)
  ultimately show "((word, wordEmphasis, snd (char_step word wordEmphasis i st) + 1,
           fst (char_step word wordEmphasis i st)), (word, wordEmphasis, i, st))
         \<in> measure (\<lambda>(word, e, i, st). length word - i)"
    by simp
qed

declare char_loop.simps [simp del]

text \<open>Pushing a silence event and advancing the clock by its duration.\<close>

definition push_sil :: "real \<Rightarrow> gen_state \<Rightarrow> gen_state" where
  "push_sil d st =
     (fst st @ [\<lparr>viseme = ''viseme_sil'', time = snd st, duration = d, intensity = 0\<rparr>],
      snd st + d)"

text \<open>The body of the loop over the words, for the word at index \<open>wi\<close>.\<close>

definition word_step :: "nat \<Rightarrow> string \<Rightarrow> gen_state \<Rightarrow> gen_state" where
  "word_step wi rawWord st =
     (let punct = punct_of rawWord;
          word = filter keep_word rawWord
      in if word = []
         then (if punct \<noteq> [] then push_sil (pauseDuration punct) st else st)
         else (let wordEmphasis = (if wi = 0 then 1.1 else 1.0);
                   st' = char_loop word wordEmphasis 0 st
               in if punct \<noteq> [] then push_sil (pauseDuration punct) st'
                  else push_sil WORD_GAP st'))"

fun words_loop :: "nat \<Rightarrow> string list \<Rightarrow> gen_state \<Rightarrow> gen_state" where
  "words_loop wi [] st = st"
| "words_loop wi (rawWord # rest) st = words_loop (wi + 1) rest (word_step wi rawWord st)"

definition generatePhonemeData :: "string \<Rightarrow> phonemeData" where
  "generatePhonemeData text =
     (let st = words_loop 0 (words_of text) ([], 0)
      in \<lparr>phonemes = fst st, totalDuration = snd st\<rparr>)"

section \<open>The lip-sync controller and the compositor of the client (public/app.js)\<close>

text \<open>
  The script keeps its state in variables of the file; the model gathers them in one
  record and every function returns the record it leaves. \<open>performance.now()\<close> (in
  milliseconds), the clock of the renderer and \<open>Math.random()\<close> are inputs. The page, the
  bones of the skeleton and the smoothing of the influences of the meshes are left out:
  they never write a variable that the functions below read. An object with numeric
  values is a list of pairs in the order of insertion, with distinct keys.
\<close>

subsection \<open>Helpers of JavaScript and three.js\<close>

text \<open>\<open>x || d\<close> on numbers.\<close>

definition js_or :: "real \<Rightarrow> real \<Rightarrow> real" where
  "js_or x d = (if x = 0 then d else x)"

text \<open>\<open>obj[name] || 0\<close>.\<close>

definition lookup0 :: "(string \<times> real) list \<Rightarrow> string \<Rightarrow> real" where
  "lookup0 obj name = (case map_of obj name of None \<Rightarrow> 0 | Some v \<Rightarrow> js_or v 0)"

definition MathUtils_clamp :: "real \<Rightarrow> real \<Rightarrow> real \<Rightarrow> real" where
  "MathUtils_clamp v lo hi = max lo (min hi v)"

definition MathUtils_lerp :: "real \<Rightarrow> real \<Rightarrow> real \<Rightarrow> real" where
  "MathUtils_lerp x y t = (1 - t) * x + t * y"

subsection \<open>The state\<close>

datatype lip_mode = Mode_none | Mode_realtime | Mode_timeline | Mode_fallback

record wordViseme =
  w_viseme :: string
  w_duration :: real
  w_intensity :: real

record client =
  avatarLoaded :: bool
  morphDict :: "string list option"
  hasOculusVisemes :: bool
  hasARKitMorphs :: bool
  morphTargetTarget :: "string \<rightharpoonup> real"
  isSpeaking :: bool
  lipSyncMode :: lip_mode
  lipSyncStartTime :: real
  currentPhonemes :: "phonemeData option"
  wordVisemeQueue :: "wordViseme list"
  wordVisemeStart :: real
  lipSyncAnimFrame :: "nat option"
  talkGesturePhase :: real
  currentEmotion :: "(string \<times> real) list"
  emotionTargetMap :: "(string \<times> real) list"
  faceTrackGazeX :: "real option"
  faceTrackGazeY :: "real option"
  faceTrackBlink :: "real option"
  faceTrackSmile :: "real option"
  faceTrackBrowRaise :: "real option"
  faceTrackMouthOpen :: "real option"
  mouseX :: real
  mouseY :: real
  smoothGazeX :: real
  smoothGazeY :: real
  saccadeTimer :: real
  saccadeX :: real
  saccadeY :: real
  lastBlinkTime :: real
  nextBlinkDelay :: real
  blinkTarget :: real
  blinkAmount :: real
  elapsedTime :: real

text \<open>The values the script gives its variables when it is loaded.\<close>

definition initial_client :: client where
  "initial_client =
     \<lparr>avatarLoaded = False, morphDict = None, hasOculusVisemes = False,
      hasARKitMorphs = False, morphTargetTarget = Map.empty, isSpeaking = False,
      lipSyncMode = Mode_none, lipSyncStartTime = 0, currentPhonemes = None,
      wordVisemeQueue = [], wordVisemeStart = 0, lipSyncAnimFrame = None,
      talkGesturePhase = 0, currentEmotion = [], emotionTargetMap = [],
      faceTrackGazeX = None, faceTrackGazeY = None, faceTrackBlink = None,
      faceTrackSmile = None, faceTrackBrowRaise = None, faceTrackMouthOpen = None,
      mouseX = 0, mouseY = 0, smoothGazeX = 0, smoothGazeY = 0, saccadeTimer = 0,
      saccadeX = 0, saccadeY = 0, lastBlinkTime = 0, nextBlinkDelay = 3,
      blinkTarget = 0, blinkAmount = 0, elapsedTime = 0\<rparr>"

text \<open>The end of \<open>loadAvatar\<close> for a model whose meshes have the blend shapes \<open>keys\<close>
  (at least one mesh with a dictionary), and \<open>detectMorphCapabilities\<close>.\<close>

definition detectMorphCapabilities :: "client \<Rightarrow> client" where
  "detectMorphCapabilities s =
     (case morphDict s of
        None \<Rightarrow> s
      | Some keys \<Rightarrow>
          s\<lparr>hasOculusVisemes := (\<exists>k\<in>set keys. take 7 k = ''viseme_''),
            hasARKitMorphs := (\<exists>k\<in>set keys. k = ''jawOpen'' \<or> k = ''mouthSmileLeft'')\<rparr>)"

definition avatar_loaded :: "string list \<Rightarrow> client \<Rightarrow> client" where
  "avatar_loaded keys s =
     (detectMorphCapabilities (s\<lparr>morphDict := Some (remdups keys)\<rparr>))\<lparr>avatarLoaded := True\<rparr>"

subsection \<open>The target accumulator\<close>

text \<open>\<open>morphTargetTarget[name] || 0\<close>.\<close>

definition target_of :: "(string \<rightharpoonup> real) \<Rightarrow> string \<Rightarrow> real" where
  "target_of m name = (case m name of None \<Rightarrow> 0 | Some v \<Rightarrow> js_or v 0)"

definition setMorph :: "string \<Rightarrow> real \<Rightarrow> client \<Rightarrow> client" where
  "setMorph name v s =
     (case morphDict s of
        None \<Rightarrow> s
      | Some keys \<Rightarrow>
          if name \<notin> set keys then s
          else s\<lparr>morphTargetTarget :=
                   (morphTargetTarget s)(name \<mapsto> max (target_of (morphTargetTarget s) name) v)\<rparr>)"

definition resetMorphTargets :: "client \<Rightarrow> client" where
  "resetMorphTargets s =
     s\<lparr>morphTargetTarget := (\<lambda>k. map_option (\<lambda>_. 0) (morphTargetTarget s k))\<rparr>"

definition VISEME_TO_ARKIT :: "(string \<times> (string \<times> real) list) list" where
  "VISEME_TO_ARKIT =
    [(''viseme_sil'', []),
     (''viseme_aa'', [(''jawOpen'', 0.75), (''mouthFunnel'', 0.2)]),
     (''viseme_E'', [(''jawOpen'', 0.22), (''mouthSmileLeft'', 0.35),
        (''mouthSmileRight'', 0.35), (''mouthStretchLeft'', 0.25),
        (''mouthStretchRight'', 0.25)]),
     (''viseme_I'', [(''jawOpen'', 0.1), (''mouthSmileLeft'', 0.5),
        (''mouthSmileRight'', 0.5)]),
     (''viseme_O'', [(''jawOpen'', 0.55), (''mouthFunnel'', 0.65), (''mouthPucker'', 0.3)]),
     (''viseme_U'', [(''jawOpen'', 0.12), (''mouthPucker'', 0.75), (''mouthFunnel'', 0.45)]),
     (''viseme_PP'', [(''mouthClose'', 0.85), (''mouthPressLeft'', 0.55),
        (''mouthPressRight'', 0.55)]),
     (''viseme_FF'', [(''jawOpen'', 0.06), (''mouthRollLower'', 0.35),
        (''mouthUpperUpLeft'', 0.2), (''mouthUpperUpRight'', 0.2)]),
     (''viseme_TH'', [(''jawOpen'', 0.15), (''tongueOut'', 0.55),
        (''mouthLowerDownLeft'', 0.08), (''mouthLowerDownRight'', 0.08)]),
     (''viseme_DD'', [(''jawOpen'', 0.18), (''tongueOut'', 0.12), (''mouthClose'', 0.08)]),
     (''viseme_kk'', [(''jawOpen'', 0.28), (''mouthFunnel'', 0.08),
        (''mouthShrugUpper'', 0.08)]),
     (''viseme_CH'', [(''jawOpen'', 0.12), (''mouthPucker'', 0.45), (''mouthFunnel'', 0.2)]),
     (''viseme_SS'', [(''jawOpen'', 0.06), (''mouthStretchLeft'', 0.3),
        (''mouthStretchRight'', 0.3), (''mouthClose'', 0.12)]),
     (''viseme_nn'', [(''jawOpen'', 0.05), (''mouthClose'', 0.12), (''tongueOut'', 0.06)]),
     (''viseme_RR'', [(''jawOpen'', 0.18), (''mouthPucker'', 0.22), (''mouthFunnel'', 0.12),
        (''mouthRollLower'', 0.1)])]"

text \<open>The loop of \<open>applyViseme\<close> over the entries of a mapping.\<close>

fun apply_mapping :: "(string \<times> real) list \<Rightarrow> real \<Rightarrow> client \<Rightarrow> client" where
  "apply_mapping [] inten s = s"
| "apply_mapping ((morph, weight) # rest) inten s =
     apply_mapping rest inten (setMorph morph (weight * inten) s)"

definition applyViseme :: "string \<Rightarrow> real \<Rightarrow> client \<Rightarrow> client" where
  "applyViseme visemeName inten s =
     (case morphDict s of
        None \<Rightarrow> s
      | Some keys \<Rightarrow>
          if hasOculusVisemes s \<and> visemeName \<in> set keys then setMorph visemeName inten s
          else if hasARKitMorphs s then
            (case map_of VISEME_TO_ARKIT visemeName of
               None \<Rightarrow> s
             | Some mapping \<Rightarrow> apply_mapping mapping inten s)
          else s)"

subsection \<open>Starting and stopping lip sync\<close>

definition stopLipSync :: "client \<Rightarrow> client" where
  "stopLipSync s =
     s\<lparr>isSpeaking := False, lipSyncMode := Mode_none, lipSyncAnimFrame := None,
       talkGesturePhase := 0, wordVisemeQueue := []\<rparr>"

definition startLipSyncFromTimeline :: "phonemeData option \<Rightarrow> real \<Rightarrow> client \<Rightarrow> client" where
  "startLipSyncFromTimeline phonemeData now s =
     (stopLipSync s)\<lparr>isSpeaking := True, currentPhonemes := phonemeData,
       lipSyncMode := Mode_timeline, lipSyncStartTime := now, talkGesturePhase := 0\<rparr>"

definition startRealtimeLipSync :: "client \<Rightarrow> client" where
  "startRealtimeLipSync s =
     (stopLipSync s)\<lparr>isSpeaking := True, lipSyncMode := Mode_realtime,
       talkGesturePhase := 0, wordVisemeQueue := []\<rparr>"

definition startLipSyncFallback :: "real \<Rightarrow> client \<Rightarrow> client" where
  "startLipSyncFallback now s =
     (stopLipSync s)\<lparr>isSpeaking := True, lipSyncMode := Mode_fallback,
       lipSyncStartTime := now, talkGesturePhase := 0\<rparr>"

subsection \<open>The tick of the controller\<close>

text \<open>The loop of the realtime mode over the queue of the current word. It returns the
  state and the value of \<open>t\<close> at which the loop was left; the loop breaks at the first
  viseme whose window holds \<open>elapsed\<close>.\<close>

fun realtime_loop :: "wordViseme list \<Rightarrow> real \<Rightarrow> real \<Rightarrow> client \<Rightarrow> client \<times> real" where
  "realtime_loop [] elapsed t s = (s, t)"
| "realtime_loop (v # rest) elapsed t s =
     (if elapsed \<ge> t \<and> elapsed < t + w_duration v
      then (let progress = (elapsed - t) / w_duration v;
                envelope = sin (progress * pi);
                s1 = applyViseme (w_viseme v) (w_intensity v * (0.5 + envelope * 0.5)) s
            in case rest of
                 [] \<Rightarrow> (s1, t)
               | next # _ \<Rightarrow>
                   if progress > 0.6
                   then (applyViseme (w_viseme next)
                           (w_intensity next * ((progress - 0.6) / 0.4) * 0.4) s1, t)
                   else (s1, t))
      else realtime_loop rest elapsed (t + w_duration v) s)"

text \<open>The loop of the timeline mode visits all events of the sequence. Its body, for the
  event \<open>ph\<close> followed by the events \<open>rest\<close>: the event is applied while \<open>elapsed\<close> is in
  its window, and the next one is blended in during the last 30 percent of the window.\<close>

definition timeline_body :: "phoneme \<Rightarrow> phoneme list \<Rightarrow> real \<Rightarrow> client \<Rightarrow> client" where
  "timeline_body ph rest elapsed s =
     (let s1 = (if elapsed \<ge> time ph \<and> elapsed < time ph + duration ph
                then (let progress = (elapsed - time ph) / duration ph;
                          envelope = sin (progress * pi)
                      in applyViseme (viseme ph)
                           (js_or (intensity ph) 1.0 * (0.5 + envelope * 0.5)) s)
                else s)
      in if elapsed \<ge> time ph + duration ph * 0.7 \<and> elapsed < time ph + duration ph
         then (case rest of
                 [] \<Rightarrow> s1
               | next # _ \<Rightarrow>
                   (let blend = (elapsed - (time ph + duration ph * 0.7)) /
                                (duration ph * 0.3)
                    in applyViseme (viseme next)
                         (js_or (intensity next) 0.5 * blend * 0.35) s1))
         else s1)"

fun timeline_loop :: "phoneme list \<Rightarrow> real \<Rightarrow> client \<Rightarrow> client" where
  "timeline_loop [] elapsed s = s"
| "timeline_loop (ph # rest) elapsed s =
     timeline_loop rest elapsed (timeline_body ph rest elapsed s)"

text \<open>\<open>visemes[Math.floor(cycle) % 5]\<close> of the fallback mode; the remainder of JavaScript
  has the sign of the dividend, and a negative index reads \<open>undefined\<close>.\<close>

definition fallback_viseme :: "int \<Rightarrow> string option" where
  "fallback_viseme fl =
     (if fl \<ge> 0 \<or> (- fl) mod 5 = 0
      then Some ([''viseme_aa'', ''viseme_E'', ''viseme_O'', ''viseme_I'', ''viseme_U'']
                   ! nat (fl mod 5))
      else None)"

text \<open>The three branches of \<open>tickLipSync\<close>, by the time elapsed since the start of the word
  or of the playback, in seconds.\<close>

definition realtime_tick :: "real \<Rightarrow> client \<Rightarrow> client" where
  "realtime_tick elapsed s =
     (let r = realtime_loop (wordVisemeQueue s) elapsed 0 s
      in if elapsed > snd r then (fst r)\<lparr>wordVisemeQueue := []\<rparr> else fst r)"

definition timeline_tick :: "real \<Rightarrow> client \<Rightarrow> client" where
  "timeline_tick elapsed s =
     (case currentPhonemes s of
        None \<Rightarrow> s
      | Some pd \<Rightarrow>
          if totalDuration pd \<noteq> 0 \<and> elapsed > totalDuration pd + 0.15
          then stopLipSync s
          else timeline_loop (phonemes pd) elapsed s)"

definition fallback_tick :: "real \<Rightarrow> client \<Rightarrow> client" where
  "fallback_tick elapsed s =
     (let cycle = elapsed * 5.0;
          progress = cycle - of_int \<lfloor>cycle\<rfloor>;
          s1 = (case fallback_viseme \<lfloor>cycle\<rfloor> of
                  None \<Rightarrow> s
                | Some v \<Rightarrow> applyViseme v (sin (progress * pi) * 0.9) s)
      in if hasARKitMorphs s1 then setMorph ''jawOpen'' (sin (progress * pi) * 0.5) s1
         else s1)"

definition tickLipSync :: "real \<Rightarrow> client \<Rightarrow> client" where
  "tickLipSync now s =
     (if \<not> isSpeaking s then s
      else case lipSyncMode s of
        Mode_realtime \<Rightarrow>
          (if wordVisemeQueue s \<noteq> []
           then realtime_tick ((now - wordVisemeStart s) / 1000) s
           else s)
      | Mode_timeline \<Rightarrow> timeline_tick ((now - lipSyncStartTime s) / 1000) s
      | Mode_fallback \<Rightarrow> fallback_tick ((now - lipSyncStartTime s) / 1000) s
      | Mode_none \<Rightarrow> s)"

subsection \<open>Emotions and idle expressions\<close>

definition EMOTIONS :: "(string \<times> (string \<times> real) list) list" where
  "EMOTIONS =
    [(''happy'', [(''mouthSmileLeft'', 0.55), (''mouthSmileRight'', 0.55),
        (''cheekSquintLeft'', 0.25), (''cheekSquintRight'', 0.25),
        (''eyeSquintLeft'', 0.12), (''eyeSquintRight'', 0.12)]),
     (''sad'', [(''mouthFrownLeft'', 0.45), (''mouthFrownRight'', 0.45),
        (''browInnerUp'', 0.35), (''browDownLeft'', 0.1), (''browDownRight'', 0.1)]),
     (''surprised'', [(''jawOpen'', 0.35), (''eyeWideLeft'', 0.45), (''eyeWideRight'', 0.45),
        (''browInnerUp'', 0.55), (''browOuterUpLeft'', 0.45), (''browOuterUpRight'', 0.45)]),
     (''angry'', [(''browDownLeft'', 0.5), (''browDownRight'', 0.5),
        (''mouthFrownLeft'', 0.25), (''mouthFrownRight'', 0.25),
        (''noseSneerLeft'', 0.3), (''noseSneerRight'', 0.3), (''jawForward'', 0.15)]),
     (''neutral'', [])]"

definition setEmotion :: "string \<Rightarrow> client \<Rightarrow> client" where
  "setEmotion name s =
     s\<lparr>emotionTargetMap := (case map_of EMOTIONS name of None \<Rightarrow> [] | Some e \<Rightarrow> e)\<rparr>"

text \<open>The first loop of \<open>updateEmotionMorphs\<close>, over the names of \<open>emotionTargetMap\<close>.\<close>

fun emotion_approach :: "string list \<Rightarrow> real \<Rightarrow> client \<Rightarrow> client" where
  "emotion_approach [] rate s = s"
| "emotion_approach (name # rest) rate s =
     (let target = lookup0 (emotionTargetMap s) name;
          cur = lookup0 (currentEmotion s) name;
          v = cur + (target - cur) * rate
      in emotion_approach rest rate
           (setMorph name v (s\<lparr>currentEmotion := AList.update name v (currentEmotion s)\<rparr>)))"

text \<open>The second loop, over the names \<open>currentEmotion\<close> has when the loop starts.\<close>

fun emotion_decay :: "string list \<Rightarrow> real \<Rightarrow> client \<Rightarrow> client" where
  "emotion_decay [] rate s = s"
| "emotion_decay (name # rest) rate s =
     (if name \<notin> set (map fst (emotionTargetMap s))
      then (let v = (case map_of (currentEmotion s) name of None \<Rightarrow> 0 | Some c \<Rightarrow> c) *
                    (1 - rate)
            in if v < 0.005
               then emotion_decay rest rate
                      (s\<lparr>currentEmotion := AList.delete name (currentEmotion s)\<rparr>)
               else emotion_decay rest rate
                      (setMorph name v
                         (s\<lparr>currentEmotion := AList.update name v (currentEmotion s)\<rparr>)))
      else emotion_decay rest rate s)"

definition updateEmotionMorphs :: "real \<Rightarrow> client \<Rightarrow> client" where
  "updateEmotionMorphs delta s =
     (let rate = 1 - exp (- 5 * delta);
          s1 = emotion_approach (map fst (emotionTargetMap s)) rate s
      in emotion_decay (map fst (currentEmotion s1)) rate s1)"

definition microExpressions :: "real \<Rightarrow> client \<Rightarrow> client" where
  "microExpressions t s =
     (let smile = (sin (t * 0.35) + 1) * 0.02;
          browShift = (sin (t * 0.28 + 1.5) + 1) * 0.015;
          cheek = (sin (t * 0.8) + 1) * 0.005
      in setMorph ''cheekPuff'' cheek
           (setMorph ''browInnerUp'' browShift
              (setMorph ''mouthSmileRight'' smile (setMorph ''mouthSmileLeft'' smile s))))"

subsection \<open>Eye gaze and blinking\<close>

text \<open>What one frame reads from outside: \<open>performance.now()\<close>, \<open>glClock.getDelta()\<close> and the
  values of \<open>Math.random()\<close>.\<close>

record frame =
  f_now :: real
  f_getDelta :: real
  rnd_saccadeX :: real
  rnd_saccadeY :: real
  rnd_saccadeTimer :: real
  rnd_blinkDelay :: real

definition updateEyeGaze :: "real \<Rightarrow> frame \<Rightarrow> client \<Rightarrow> client" where
  "updateEyeGaze delta fr s =
     (let targetX = (case faceTrackGazeX s of None \<Rightarrow> mouseX s | Some g \<Rightarrow> g);
          targetY = (case faceTrackGazeY s of None \<Rightarrow> mouseY s | Some g \<Rightarrow> g);
          s1 = s\<lparr>smoothGazeX := smoothGazeX s + (targetX - smoothGazeX s) * 0.08,
                 smoothGazeY := smoothGazeY s + (targetY - smoothGazeY s) * 0.08,
                 saccadeTimer := saccadeTimer s - delta\<rparr>;
          s2 = (if saccadeTimer s1 \<le> 0
                then s1\<lparr>saccadeX := (rnd_saccadeX fr - 0.5) * 0.06,
                        saccadeY := (rnd_saccadeY fr - 0.5) * 0.035,
                        saccadeTimer := 0.8 + rnd_saccadeTimer fr * 2.5\<rparr>
                else s1);
          gx = smoothGazeX s2 + saccadeX s2;
          gy = smoothGazeY s2 + saccadeY s2
      in if hasARKitMorphs s2
         then (let lookRight = max 0 gx; lookLeft = max 0 (- gx);
                   lookUp = max 0 gy; lookDown = max 0 (- gy)
               in setMorph ''eyeLookDownRight'' (lookDown * 0.5)
                   (setMorph ''eyeLookDownLeft'' (lookDown * 0.5)
                   (setMorph ''eyeLookUpRight'' (lookUp * 0.5)
                   (setMorph ''eyeLookUpLeft'' (lookUp * 0.5)
                   (setMorph ''eyeLookInRight'' (lookLeft * 0.7)
                   (setMorph ''eyeLookOutRight'' (lookRight * 0.7)
                   (setMorph ''eyeLookInLeft'' (lookRight * 0.7)
                   (setMorph ''eyeLookOutLeft'' (lookLeft * 0.7) s2))))))))
         else s2)"

definition updateBlink :: "real \<Rightarrow> real \<Rightarrow> frame \<Rightarrow> client \<Rightarrow> client" where
  "updateBlink t delta fr s =
     (let s1 = (case faceTrackBlink s of
                  Some b \<Rightarrow> s\<lparr>blinkAmount := MathUtils_lerp (blinkAmount s) b 0.3\<rparr>
                | None \<Rightarrow>
                    (let s0 = (if t - lastBlinkTime s > nextBlinkDelay s
                               then s\<lparr>blinkTarget := 1, lastBlinkTime := t,
                                      nextBlinkDelay := 2.5 + rnd_blinkDelay fr * 5\<rparr>
                               else s)
                     in s0\<lparr>blinkAmount := blinkAmount s0 +
                             (blinkTarget s0 - blinkAmount s0) * (1 - exp (- 24 * delta))\<rparr>));
          s2 = setMorph ''eyeBlinkRight'' (blinkAmount s1)
                 (setMorph ''eyeBlinkLeft'' (blinkAmount s1) s1)
      in if blinkAmount s2 > 0.5
         then setMorph ''eyeSquintRight'' (blinkAmount s2 * 0.3)
                (setMorph ''eyeSquintLeft'' (blinkAmount s2 * 0.3) s2)
         else s2)"

text \<open>The timer that \<open>updateBlink\<close> sets to open the eyes again.\<close>

definition blinkTimerFired :: "client \<Rightarrow> client" where
  "blinkTimerFired s = s\<lparr>blinkTarget := 0\<rparr>"

subsection \<open>One frame\<close>

definition animateTalkingBody :: "real \<Rightarrow> client \<Rightarrow> client" where
  "animateTalkingBody delta s = s\<lparr>talkGesturePhase := talkGesturePhase s + delta\<rparr>"

text \<open>\<open>delta\<close> of a frame: \<open>Math.min(glClock.getDelta(), 0.05)\<close>.\<close>

definition frame_delta :: "frame \<Rightarrow> real" where
  "frame_delta fr = min (f_getDelta fr) 0.05"

definition animate :: "frame \<Rightarrow> client \<Rightarrow> client" where
  "animate fr s =
     (let delta = frame_delta fr;
          s0 = s\<lparr>elapsedTime := elapsedTime s + delta\<rparr>
      in if avatarLoaded s0
         then (let s1 = resetMorphTargets s0;
                   s2 = tickLipSync (f_now fr) s1;
                   s3 = updateEmotionMorphs delta s2;
                   s4 = (if \<not> isSpeaking s3 then microExpressions (elapsedTime s3) s3 else s3);
                   s5 = updateEyeGaze delta fr s4;
                   s6 = updateBlink (elapsedTime s5) delta fr s5
               in if isSpeaking s6 then animateTalkingBody delta s6 else s6)
         else s0)"

subsection \<open>Face tracking\<close>

text \<open>\<open>onFaceResults\<close>: \<open>results\<close> is the list \<open>multiFaceLandmarks\<close> (empty when absent), a
  face being its landmarks by index with their \<open>x\<close> and \<open>y\<close>.\<close>

definition onFaceResults :: "(nat \<Rightarrow> real \<times> real) list \<Rightarrow> client \<Rightarrow> client" where
  "onFaceResults results s =
     (case results of
        [] \<Rightarrow> s\<lparr>faceTrackGazeX := None, faceTrackGazeY := None, faceTrackBlink := None,
                faceTrackSmile := None, faceTrackMouthOpen := None,
                faceTrackBrowRaise := None\<rparr>
      | lm # _ \<Rightarrow>
          (let x = (\<lambda>i. fst (lm i)); y = (\<lambda>i. snd (lm i));
               lEyeOpen = \<bar>y 159 - y 145\<bar>;
               rEyeOpen = \<bar>y 386 - y 374\<bar>;
               blink = MathUtils_clamp (1 - ((lEyeOpen + rEyeOpen) / 2 - 0.008) / 0.035) 0 1;
               mouthOpenAmt = \<bar>y 13 - y 14\<bar>;
               mouthOpen = MathUtils_clamp ((mouthOpenAmt - 0.015) / 0.06) 0 1;
               s1 = s\<lparr>faceTrackBlink := Some blink,
                      faceTrackGazeX := Some ((x 4 - 0.5) * (- 2.5)),
                      faceTrackGazeY := Some ((y 4 - 0.5) * (- 2)),
                      faceTrackMouthOpen := Some mouthOpen\<rparr>;
               s2 = (if mouthOpen > 0.08 \<and> \<not> isSpeaking s1
                     then (if hasOculusVisemes s1 then setMorph ''viseme_aa'' (mouthOpen * 0.7) s1
                           else if hasARKitMorphs s1 then setMorph ''jawOpen'' (mouthOpen * 0.7) s1
                           else s1)
                     else s1);
               mouthWidth = \<bar>x 291 - x 61\<bar>;
               smile = MathUtils_clamp ((mouthWidth - 0.14) / 0.1) 0 1;
               s3 = s2\<lparr>faceTrackSmile := Some smile\<rparr>;
               s4 = (if \<not> isSpeaking s3
                     then setMorph ''mouthSmileRight'' (smile * 0.6)
                            (setMorph ''mouthSmileLeft'' (smile * 0.6) s3)
                     else s3);
               browAvgY = (y 107 + y 336 + y 70 + y 300) / 4;
               brow = MathUtils_clamp ((0.28 - browAvgY) / 0.06) (- 0.5) 1;
               s5 = s4\<lparr>faceTrackBrowRaise := Some brow\<rparr>
           in if \<not> isSpeaking s5
              then setMorph ''browDownRight'' (max 0 (- brow) * 0.4)
                     (setMorph ''browDownLeft'' (max 0 (- brow) * 0.4)
                        (setMorph ''browInnerUp'' (max 0 brow * 0.5) s5))
              else s5))"

subsection \<open>The word-by-word expander\<close>

definition CHAR_VISEME :: "string \<rightharpoonup> string" where
  "CHAR_VISEME = map_of
    [(''th'', ''viseme_TH''), (''ch'', ''viseme_CH''), (''sh'', ''viseme_CH''),
     (''ng'', ''viseme_nn''), (''wh'', ''viseme_U''), (''ph'', ''viseme_FF''),
     (''a'', ''viseme_aa''), (''e'', ''viseme_E''), (''i'', ''viseme_I''),
     (''o'', ''viseme_O''), (''u'', ''viseme_U''),
     (''b'', ''viseme_PP''), (''p'', ''viseme_PP''), (''m'', ''viseme_PP''),
     (''f'', ''viseme_FF''), (''v'', ''viseme_FF''),
     (''t'', ''viseme_DD''), (''d'', ''viseme_DD''), (''n'', ''viseme_nn''),
     (''l'', ''viseme_DD''),
     (''k'', ''viseme_kk''), (''g'', ''viseme_kk''), (''c'', ''viseme_kk''),
     (''s'', ''viseme_SS''), (''z'', ''viseme_SS''),
     (''r'', ''viseme_RR''), (''j'', ''viseme_CH''), (''y'', ''viseme_CH''),
     (''w'', ''viseme_U''), (''h'', ''viseme_CH'')]"

text \<open>The body of the loop of \<open>wordToVisemes\<close> at index \<open>i\<close>: the results so far and the
  index after the body, before the loop's own \<open>i++\<close>.\<close>

definition word_viseme_step :: "string \<Rightarrow> nat \<Rightarrow> wordViseme list \<Rightarrow> wordViseme list \<times> nat" where
  "word_viseme_step w i result =
     (let di = digraph_at w i;
          vis = (case CHAR_VISEME di of Some v \<Rightarrow> Some v | None \<Rightarrow> CHAR_VISEME [w ! i])
      in case vis of
           None \<Rightarrow> (result, i)
         | Some v \<Rightarrow>
             (result @ [\<lparr>w_viseme = v,
                          w_duration = (if isVowel (w ! i) then 0.075 * 1.5 else 0.075 * 0.9),
                          w_intensity = (if isVowel (w ! i) then 1.0 else 0.75)\<rparr>],
              (if CHAR_VISEME di \<noteq> None then i + 1 else i)))"

lemma word_viseme_step_index: "i \<le> snd (word_viseme_step w i result)"
  by (simp add: word_viseme_step_def Let_def split: option.splits)

function word_viseme_loop :: "string \<Rightarrow> nat \<Rightarrow> wordViseme list \<Rightarrow> wordViseme list" where
  "word_viseme_loop w i result =
     (if i < length w
      then word_viseme_loop w (snd (word_viseme_step w i result) + 1)
             (fst (word_viseme_step w i result))
      else result)"
  by pat_completeness auto

termination word_viseme_loop
proof (relation "measure (\<lambda>(w, i, result). length w - i)")
  show "wf (measure (\<lambda>(w, i, result). length w - i))" by simp
next
  fix w :: string and i :: nat and result :: "wordViseme list"
  assume "i < length w"
  moreover have "i \<le> snd (word_viseme_step w i result)" by (rule word_viseme_step_index)
  ultimately show "((w, snd (word_viseme_step w i result) + 1,
           fst (word_viseme_step w i result)), (w, i, result))
         \<in> measure (\<lambda>(w, i, result). length w - i)"
    by simp
qed

declare word_viseme_loop.simps [simp del]

definition wordToVisemes :: "string \<Rightarrow> wordViseme list" where
  "wordToVisemes word = word_viseme_loop (filter is_az (toLowerCase word)) 0 []"

subsection \<open>One utterance: the handlers that speak installs\<close>

text \<open>The variables of the closure of \<open>speak\<close> (when the auto-speak toggle is on; otherwise
  \<open>speak\<close> returns at once and installs nothing), and the number of grace timers that
  \<open>onstart\<close> has set and that have not fired yet. \<open>setTimeout\<close> returns a handle that the
  script does not keep, so nothing can cancel such a timer.\<close>

record utterance =
  u_text :: string
  u_phonemeData :: "phonemeData option"
  usedBoundary :: bool
  speechStarted :: bool
  graceTimers :: nat

text \<open>\<open>phonemeData?.phonemes?.length > 0\<close>.\<close>

definition has_timeline :: "phonemeData option \<Rightarrow> bool" where
  "has_timeline pd = (case pd of None \<Rightarrow> False | Some d \<Rightarrow> phonemes d \<noteq> [])"

definition speak :: "string \<Rightarrow> phonemeData option \<Rightarrow> utterance" where
  "speak text phonemeData =
     \<lparr>u_text = text, u_phonemeData = phonemeData, usedBoundary = False,
      speechStarted = False, graceTimers = 0\<rparr>"

type_synonym session = "client \<times> utterance"

definition onstart :: "real \<Rightarrow> session \<Rightarrow> session" where
  "onstart now cu =
     (let s = fst cu; u = (snd cu)\<lparr>speechStarted := True\<rparr>
      in if has_timeline (u_phonemeData u)
         then (startLipSyncFromTimeline (u_phonemeData u) now s, u\<lparr>usedBoundary := True\<rparr>)
         else (s, u\<lparr>graceTimers := graceTimers u + 1\<rparr>))"

text \<open>The callback of the grace timer, 400 ms after \<open>onstart\<close>.\<close>

definition graceTimerFired :: "real \<Rightarrow> session \<Rightarrow> session" where
  "graceTimerFired now cu =
     (let s = fst cu; u = snd cu
      in if graceTimers u = 0 then cu
         else (let u1 = u\<lparr>graceTimers := graceTimers u - 1\<rparr>
               in if \<not> usedBoundary u1 \<and> speechStarted u1
                  then (if has_timeline (u_phonemeData u1)
                        then (startLipSyncFromTimeline (u_phonemeData u1) now s, u1)
                        else (startLipSyncFallback now s, u1))
                  else (s, u1)))"

text \<open>\<open>text.indexOf(' ', from)\<close> and \<open>word.trim()\<close>.\<close>

definition indexOf_space :: "string \<Rightarrow> nat \<Rightarrow> int" where
  "indexOf_space text from =
     (if CHR '' '' \<in> set (drop from text)
      then int (from + length (takeWhile (\<lambda>c. c \<noteq> CHR '' '') (drop from text)))
      else - 1)"

definition trim :: "string \<Rightarrow> string" where
  "trim w = rev (dropWhile is_space (rev (dropWhile is_space w)))"

text \<open>\<open>onboundary\<close> for an event with the given name, \<open>charIndex\<close> and \<open>charLength\<close> (0 when
  the browser gives none).\<close>

definition onboundary :: "string \<Rightarrow> nat \<Rightarrow> nat \<Rightarrow> real \<Rightarrow> session \<Rightarrow> session" where
  "onboundary name charIndex charLength now cu =
     (let s = fst cu; u = snd cu
      in if has_timeline (u_phonemeData u) then cu
         else if name = ''word''
         then (let s1 = (if \<not> usedBoundary u then startRealtimeLipSync s else s);
                   u1 = u\<lparr>usedBoundary := True\<rparr>;
                   charLen = (if charLength \<noteq> 0 then int charLength
                              else indexOf_space (u_text u) charIndex - int charIndex);
                   word = take (nat (max charLen 1)) (drop charIndex (u_text u))
               in if trim word \<noteq> []
                  then (s1\<lparr>wordVisemeQueue := wordToVisemes (trim word),
                           wordVisemeStart := now\<rparr>, u1)
                  else (s1, u1))
         else cu)"

definition onend :: "session \<Rightarrow> session" where
  "onend cu = (stopLipSync (fst cu), snd cu)"

definition onerror :: "session \<Rightarrow> session" where
  "onerror cu = (stopLipSync (fst cu), snd cu)"

text \<open>What can happen to a session, and a run of such events in order.\<close>

datatype event =
    OnStart real
  | OnBoundary string nat nat real
  | GraceTimer real
  | OnEnd
  | OnError
  | Stop
  | Frame frame
  | FaceResults "(nat \<Rightarrow> real \<times> real) list"
  | BlinkTimer

fun handle :: "event \<Rightarrow> session \<Rightarrow> session" where
  "handle (OnStart now) cu = onstart now cu"
| "handle (OnBoundary name charIndex charLength now) cu =
     onboundary name charIndex charLength now cu"
| "handle (GraceTimer now) cu = graceTimerFired now cu"
| "handle OnEnd cu = onend cu"
| "handle OnError cu = onerror cu"
| "handle Stop cu = (stopLipSync (fst cu), snd cu)"
| "handle (Frame fr) cu = (animate fr (fst cu), snd cu)"
| "handle (FaceResults results) cu = (onFaceResults results (fst cu), snd cu)"
| "handle BlinkTimer cu = (blinkTimerFired (fst cu), snd cu)"

fun run :: "event list \<Rightarrow> session \<Rightarrow> session" where
  "run [] cu = cu"
| "run (e # es) cu = run es (handle e cu)"

section \<open>Notions used to state the properties\<close>

text \<open>A silence event.\<close>

definition is_sil :: "phoneme \<Rightarrow> bool" where
  "is_sil e \<longleftrightarrow> viseme e = ''viseme_sil''"

text \<open>What the clock of the generator moves by when it pushes an event: the duration of
  a silence event, and \<open>BASE_CHAR_DURATION\<close> for the event of a character, whatever the
  duration written into that event.\<close>

definition clock_step :: "phoneme \<Rightarrow> real" where
  "clock_step e = (if is_sil e then duration e else BASE_CHAR_DURATION)"

text \<open>Events laid along the clock from \<open>t\<close> to \<open>t'\<close>: each starts where the step of the one
  before ends (\<open>exact\<close>), or no earlier than that.\<close>

definition rel_t :: "bool \<Rightarrow> real \<Rightarrow> real \<Rightarrow> bool" where
  "rel_t exact a b = (if exact then a = b else a \<le> b)"

fun chained :: "bool \<Rightarrow> real \<Rightarrow> phoneme list \<Rightarrow> real \<Rightarrow> bool" where
  "chained x t [] t' = rel_t x t t'"
| "chained x t (e # es) t' = (rel_t x t (time e) \<and> chained x (time e + clock_step e) es t')"

text \<open>\<open>wordEmphasis\<close> of the word at index \<open>wi\<close>.\<close>

definition emphasis :: "nat \<Rightarrow> real" where
  "emphasis wi = (if wi = 0 then 1.1 else 1.0)"

text \<open>The event \<open>x\<close> was pushed for some character of the word \<open>w\<close>.\<close>

definition from_char :: "string \<Rightarrow> real \<Rightarrow> phoneme \<Rightarrow> bool" where
  "from_char w e x \<longleftrightarrow>
     (\<exists>j t v. j < length w \<and> viseme_at w j = Some v \<and> x = char_event w e j t v)"

text \<open>The indices the loop over the characters of a word visits from \<open>i\<close> on: after an
  index the next one, or the one after that when the two characters at the index are a
  digraph of the table (\<open>if (CHAR_TO_VISEME[digraph]) i++\<close>, then the loop's \<open>i++\<close>). The
  loop pushes an event at the visited indices the table maps, in this order.\<close>

function scan_positions :: "string \<Rightarrow> nat \<Rightarrow> nat list" where
  "scan_positions word i =
     (if i < length word
      then i # scan_positions word
                 (if CHAR_TO_VISEME (digraph_at word i) \<noteq> None then i + 2 else i + 1)
      else [])"
  by pat_completeness auto

termination scan_positions
  by (relation "measure (\<lambda>(word, i). length word - i)") auto

declare scan_positions.simps [simp del]

definition mapped_positions :: "string \<Rightarrow> nat list" where
  "mapped_positions word = filter (\<lambda>p. viseme_at word p \<noteq> None) (scan_positions word 0)"

text \<open>What an event carries apart from its time.\<close>

definition event_values :: "phoneme \<Rightarrow> string \<times> real \<times> real" where
  "event_values e = (viseme e, duration e, intensity e)"

text \<open>Viseme, duration and intensity of the event of the character at index \<open>p\<close> of a
  word with emphasis \<open>e\<close>, and of the events of the piece at index \<open>wi\<close> of the split text:
  those of the mapped characters the loop visits, then a silence event.\<close>

definition char_values :: "string \<Rightarrow> real \<Rightarrow> nat \<Rightarrow> string \<times> real \<times> real" where
  "char_values word e p =
     (the (viseme_at word p),
      BASE_CHAR_DURATION * (if isVowel (word ! p) then 1.2 else 0.9) *
        (if isVowel (word ! p) \<and> p + 1 < length word \<and> \<not> isVowel (word ! (p + 1))
         then 1.15 else 1),
      min 1 ((if isVowel (word ! p) then 0.75 else 0.5) * e))"

definition piece_values :: "nat \<Rightarrow> string \<Rightarrow> (string \<times> real \<times> real) list" where
  "piece_values wi w =
     (if w = [] then []
      else map (char_values (filter keep_word w) (emphasis wi))
             (mapped_positions (filter keep_word w)) @
           [(''viseme_sil'', pauseDuration (punct_of w), 0)])"

text \<open>The duration rule in the words of the specification: the stress factor applies
  when the next character exists and is a consonant, a letter that is not a vowel.\<close>

definition is_consonant :: "char \<Rightarrow> bool" where
  "is_consonant c \<longleftrightarrow> is_az c \<and> \<not> isVowel c"

definition spec_duration :: "string \<Rightarrow> nat \<Rightarrow> real" where
  "spec_duration word i =
     BASE_CHAR_DURATION * (if isVowel (word ! i) then 1.2 else 0.9) *
     (if isVowel (word ! i) \<and> i + 1 < length word \<and> is_consonant (word ! (i + 1))
      then 1.15 else 1)"

text \<open>The events of one word: events of characters, then one silence event whose
  duration is the pause for the punctuation at the end of the word.\<close>

definition word_segment :: "string \<Rightarrow> phoneme list \<Rightarrow> bool" where
  "word_segment w seg \<longleftrightarrow>
     (\<exists>evs e. seg = evs @ [e] \<and> (\<forall>x\<in>set evs. \<not> is_sil x) \<and>
        is_sil e \<and> intensity e = 0 \<and> duration e = pauseDuration (punct_of w))"

text \<open>A state of the generator whose list of events, if not empty, ends with a silence
  event at which the clock stands.\<close>

definition sil_closed :: "gen_state \<Rightarrow> bool" where
  "sil_closed st \<longleftrightarrow>
     (fst st \<noteq> [] \<longrightarrow>
        viseme (last (fst st)) = ''viseme_sil'' \<and> intensity (last (fst st)) = 0 \<and>
        snd st = time (last (fst st)) + duration (last (fst st)))"

text \<open>The rig has a channel of this name: the test \<open>morphDict && name in morphDict\<close>.\<close>

definition in_dict :: "client \<Rightarrow> string \<Rightarrow> bool" where
  "in_dict s name \<longleftrightarrow> (case morphDict s of None \<Rightarrow> False | Some keys \<Rightarrow> name \<in> set keys)"

text \<open>No channel of the accumulator is lower in \<open>s'\<close> than in \<open>s\<close>.\<close>

definition raises :: "client \<Rightarrow> client \<Rightarrow> bool" where
  "raises s s' \<longleftrightarrow>
     (\<forall>k. target_of (morphTargetTarget s) k \<le> target_of (morphTargetTarget s') k)"

text \<open>The variables of the controller that decide its mode and its clock.\<close>

definition lip_state :: "client \<Rightarrow> bool \<times> lip_mode \<times> phonemeData option \<times> real" where
  "lip_state s = (isSpeaking s, lipSyncMode s, currentPhonemes s, lipSyncStartTime s)"

text \<open>An event that leaves a timeline started at \<open>t0\<close> running: anything but the end of the
  speech, an explicit stop, a new start, and a frame later than 0.15 s after the end of
  the timeline.\<close>

fun keeps_timeline :: "real \<Rightarrow> phonemeData \<Rightarrow> event \<Rightarrow> bool" where
  "keeps_timeline t0 pd (Frame fr) =
     (totalDuration pd = 0 \<or> (f_now fr - t0) / 1000 \<le> totalDuration pd + 0.15)"
| "keeps_timeline t0 pd (OnBoundary name charIndex charLength now) = True"
| "keeps_timeline t0 pd (GraceTimer now) = True"
| "keeps_timeline t0 pd (FaceResults results) = True"
| "keeps_timeline t0 pd BlinkTimer = True"
| "keeps_timeline t0 pd (OnStart now) = False"
| "keeps_timeline t0 pd OnEnd = False"
| "keeps_timeline t0 pd OnError = False"
| "keeps_timeline t0 pd Stop = False"

text \<open>Two example rigs: one with ARKit channels, in the steady state of an emotion that
  holds \<open>jawOpen\<close> at 0.3, and one with Oculus viseme channels.\<close>

definition arkit_rig :: client where
  "arkit_rig =
     (avatar_loaded [''jawOpen'', ''mouthFunnel'', ''eyeBlinkLeft'', ''eyeBlinkRight'']
        initial_client)
     \<lparr>currentEmotion := [(''jawOpen'', 0.3)], emotionTargetMap := [(''jawOpen'', 0.3)]\<rparr>"

definition oculus_rig :: client where
  "oculus_rig =
     avatar_loaded [''viseme_sil'', ''viseme_aa'', ''viseme_E'', ''eyeBlinkLeft'',
       ''eyeBlinkRight''] initial_client"

text \<open>A state of the generator whose clock is not negative, and positive once an event
  has been pushed.\<close>

definition clock_pos :: "gen_state \<Rightarrow> bool" where
  "clock_pos st \<longleftrightarrow> 0 \<le> snd st \<and> (fst st \<noteq> [] \<longrightarrow> 0 < snd st)"

text \<open>A session whose utterance has a timeline and whose controller is idle or in the
  timeline mode; and a session whose controller runs the timeline \<open>d\<close> since \<open>t0\<close>.\<close>

definition tl_inv :: "session \<Rightarrow> bool" where
  "tl_inv cu \<longleftrightarrow>
     has_timeline (u_phonemeData (snd cu)) \<and>
     (lipSyncMode (fst cu) = Mode_timeline \<or> lipSyncMode (fst cu) = Mode_none)"

definition tl_running :: "real \<Rightarrow> phonemeData \<Rightarrow> session \<Rightarrow> bool" where
  "tl_running t0 d cu \<longleftrightarrow>
     lip_state (fst cu) = (True, Mode_timeline, Some d, t0) \<and>
     u_phonemeData (snd cu) = Some d \<and> phonemes d \<noteq> [] \<and> usedBoundary (snd cu)"

text \<open>A frame at the time \<open>now\<close>, 16 ms after the one before, with fixed random draws.\<close>

definition frame_at :: "real \<Rightarrow> frame" where
  "frame_at now = \<lparr>f_now = now, f_getDelta = 0.016, rnd_saccadeX = 0.5, rnd_saccadeY = 0.5,
     rnd_saccadeTimer = 0.5, rnd_blinkDelay = 0.5\<rparr>"

text \<open>A face whose landmarks all sit at the centre of the image: the eyes and the mouth
  are closed.\<close>

definition closed_eyes_face :: "nat \<Rightarrow> real \<times> real" where
  "closed_eyes_face i = (0.5, 0.5)"

text \<open>A rig with the channels of the jaw, the smile, the brows and the cheeks and with
  those of the eyelids, and no viseme channel; no emotion is set.\<close>

definition face_rig :: client where
  "face_rig =
     avatar_loaded [''jawOpen'', ''mouthSmileLeft'', ''mouthSmileRight'', ''browInnerUp'',
       ''browDownLeft'', ''browDownRight'', ''cheekPuff'', ''eyeBlinkLeft'', ''eyeBlinkRight'']
       initial_client"

text \<open>A face with open eyes (landmarks 159 and 386 above 145 and 374), an open mouth
  (landmark 14 below 13), a wide smile (landmarks 61 and 291 apart) and raised brows
  (landmarks 70, 107, 300 and 336).\<close>

definition smiling_face :: "nat \<Rightarrow> real \<times> real" where
  "smiling_face i =
     (if i = 14 then (0.5, 0.575)
      else if i = 61 then (0.38, 0.5)
      else if i = 291 then (0.62, 0.5)
      else if i \<in> {70, 107, 300, 336} then (0.5, 0.22)
      else if i \<in> {159, 386} then (0.5, 0.45)
      else (0.5, 0.5))"


section \<open>Properties of the timeline generator\<close>

lemma sil_closed_push: "sil_closed (push_sil d st)"
  by (simp add: sil_closed_def push_sil_def)

lemma sil_closed_word_step: "sil_closed st \<Longrightarrow> sil_closed (word_step wi rawWord st)"
  by (simp add: word_step_def Let_def sil_closed_push)

lemma sil_closed_words_loop: "sil_closed st \<Longrightarrow> sil_closed (words_loop wi ws st)"
  by (induction ws arbitrary: wi st) (simp_all add: sil_closed_word_step)

text \<open>
  Claim C10. Whenever the generator returns a list of events that is not empty, its last
  event is a silence event (\<open>viseme_sil\<close>) of intensity 0, and \<open>totalDuration\<close> is the
  time of that event plus its duration.
\<close>

theorem last_event_is_silence:
  assumes "phonemes (generatePhonemeData text) \<noteq> []"
  shows "viseme (last (phonemes (generatePhonemeData text))) = ''viseme_sil'' \<and>
         intensity (last (phonemes (generatePhonemeData text))) = 0 \<and>
         totalDuration (generatePhonemeData text) =
           time (last (phonemes (generatePhonemeData text))) +
           duration (last (phonemes (generatePhonemeData text)))"
proof -
  have "sil_closed ([], 0)" by (simp add: sil_closed_def)
  then have "sil_closed (words_loop 0 (words_of text) ([], 0))"
    by (rule sil_closed_words_loop)
  with assms show ?thesis
    by (simp add: generatePhonemeData_def Let_def sil_closed_def)
qed

theorem last_event_is_silence_witness:
  "phonemes (generatePhonemeData ''Hi.'') \<noteq> [] \<and>
   viseme (last (phonemes (generatePhonemeData ''Hi.''))) = ''viseme_sil'' \<and>
   intensity (last (phonemes (generatePhonemeData ''Hi.''))) = 0 \<and>
   totalDuration (generatePhonemeData ''Hi.'') =
     time (last (phonemes (generatePhonemeData ''Hi.''))) +
     duration (last (phonemes (generatePhonemeData ''Hi.'')))"
proof -
  have h: "phonemes (generatePhonemeData ''Hi.'') \<noteq> []" by code_simp
  from last_event_is_silence [OF h] h show ?thesis by blast
qed

lemma az_mapped: "is_az c \<Longrightarrow> CHAR_TO_VISEME [c] \<noteq> None"
  by (auto simp: is_az_def CHAR_TO_VISEME_def CHAR_TO_VISEME_table_def)

lemma table_no_sil: "CHAR_TO_VISEME k = Some v \<Longrightarrow> v \<noteq> ''viseme_sil''"
  unfolding CHAR_TO_VISEME_def
  by (drule map_of_SomeD) (auto simp: CHAR_TO_VISEME_table_def)

lemma viseme_at_no_sil: "viseme_at w i = Some v \<Longrightarrow> v \<noteq> ''viseme_sil''"
  by (auto simp: viseme_at_def table_no_sil split: option.splits)

lemma viseme_at_az: "is_az (w ! i) \<Longrightarrow> viseme_at w i \<noteq> None"
  using az_mapped [of "w ! i"] by (auto simp: viseme_at_def split: option.splits)

lemma char_event_simps [simp]:
  "viseme (char_event w e i t v) = v" "time (char_event w e i t v) = t"
  by (simp_all add: char_event_def Let_def)

lemma rel_t_refl [simp]: "rel_t x a a"
  by (simp add: rel_t_def)

lemma rel_t_trans: "rel_t x a b \<Longrightarrow> rel_t x b c \<Longrightarrow> rel_t x a c"
  by (auto simp: rel_t_def split: if_splits)

lemma chained_snoc:
  "chained x t0 phs t \<Longrightarrow> time e = t \<Longrightarrow> rel_t x (t + clock_step e) t' \<Longrightarrow>
   chained x t0 (phs @ [e]) t'"
  by (induction phs arbitrary: t0) auto

lemma chained_bump: "chained x t0 phs t \<Longrightarrow> rel_t x t t' \<Longrightarrow> chained x t0 phs t'"
  by (induction phs arbitrary: t0) (auto intro: rel_t_trans)

lemma chained_sum: "chained x t es T \<Longrightarrow> rel_t x (t + sum_list (map clock_step es)) T"
proof (induction es arbitrary: t)
  case Nil
  then show ?case by simp
next
  case (Cons e es)
  from Cons.prems have a: "rel_t x t (time e)"
    and b: "chained x (time e + clock_step e) es T" by simp_all
  from Cons.IH [OF b] a show ?case
    by (auto simp: rel_t_def split: if_splits)
qed

lemma chained_adjacent:
  "chained x t es T \<Longrightarrow> i + 1 < length es \<Longrightarrow>
   rel_t x (time (es ! i) + clock_step (es ! i)) (time (es ! (i + 1)))"
proof (induction es arbitrary: t i)
  case Nil
  then show ?case by simp
next
  case (Cons e es)
  show ?case
  proof (cases i)
    case 0
    with Cons.prems show ?thesis by (cases es) auto
  next
    case (Suc k)
    with Cons.prems Cons.IH [of "time e + clock_step e" k] show ?thesis by simp
  qed
qed

lemma char_step_chained:
  assumes "chained x t0 (fst st) (snd st)" and "x \<longrightarrow> viseme_at w i \<noteq> None"
  shows "chained x t0 (fst (fst (char_step w e i st))) (snd (fst (char_step w e i st)))"
proof (cases "viseme_at w i")
  case None
  with assms(2) have nx: "\<not> x" by simp
  have "rel_t x (snd st) (snd st + BASE_CHAR_DURATION)"
    using nx by (simp add: rel_t_def BASE_CHAR_DURATION_def)
  with assms(1) have "chained x t0 (fst st) (snd st + BASE_CHAR_DURATION)"
    by (rule chained_bump)
  with None show ?thesis by (simp add: char_step_def)
next
  case (Some v)
  then have "v \<noteq> ''viseme_sil''" by (rule viseme_at_no_sil)
  then have "clock_step (char_event w e i (snd st) v) = BASE_CHAR_DURATION"
    by (simp add: clock_step_def is_sil_def)
  then have "rel_t x (snd st + clock_step (char_event w e i (snd st) v))
      (snd st + BASE_CHAR_DURATION)"
    by simp
  then have "chained x t0 (fst st @ [char_event w e i (snd st) v])
      (snd st + BASE_CHAR_DURATION)"
    by (rule chained_snoc [OF assms(1) char_event_simps(2)])
  with Some show ?thesis by (simp add: char_step_def)
qed

lemma char_loop_chained:
  "chained x t0 (fst st) (snd st) \<Longrightarrow> (x \<longrightarrow> (\<forall>j<length w. is_az (w ! j))) \<Longrightarrow>
   chained x t0 (fst (char_loop w e i st)) (snd (char_loop w e i st))"
proof (induction w e i st rule: char_loop.induct)
  case (1 word wordEmphasis i st)
  show ?case
  proof (cases "i < length word")
    case True
    have "x \<longrightarrow> viseme_at word i \<noteq> None"
      using True "1.prems"(2) viseme_at_az [of word i] by blast
    with "1.prems"(1)
    have "chained x t0 (fst (fst (char_step word wordEmphasis i st)))
            (snd (fst (char_step word wordEmphasis i st)))"
      by (rule char_step_chained)
    from "1.IH" [OF True this "1.prems"(2)] True show ?thesis
      by (subst (1 2) char_loop.simps) simp
  next
    case False
    with "1.prems"(1) show ?thesis by (subst (1 2) char_loop.simps) simp
  qed
qed

lemma push_sil_chained:
  "chained x t0 (fst st) (snd st) \<Longrightarrow>
   chained x t0 (fst (push_sil d st)) (snd (push_sil d st))"
  by (auto simp: push_sil_def clock_step_def is_sil_def intro!: chained_snoc)

lemma keep_word_az: "keep_word c \<Longrightarrow> c \<noteq> CHR 0x27 \<Longrightarrow> c \<noteq> CHR ''-'' \<Longrightarrow> is_az c"
  by (simp add: keep_word_def)

lemma word_step_chained:
  assumes "chained x t0 (fst st) (snd st)"
    and "x \<longrightarrow> CHR 0x27 \<notin> set rawWord \<and> CHR ''-'' \<notin> set rawWord"
  shows "chained x t0 (fst (word_step wi rawWord st)) (snd (word_step wi rawWord st))"
proof -
  have az: "x \<longrightarrow> (\<forall>j<length (filter keep_word rawWord). is_az (filter keep_word rawWord ! j))"
  proof (intro impI allI)
    fix j assume x and j: "j < length (filter keep_word rawWord)"
    then have "filter keep_word rawWord ! j \<in> set (filter keep_word rawWord)"
      by (intro nth_mem)
    with \<open>x\<close> assms(2) show "is_az (filter keep_word rawWord ! j)"
      by (auto intro: keep_word_az)
  qed
  show ?thesis
    using assms(1) az
    by (auto simp: word_step_def Let_def intro!: push_sil_chained char_loop_chained)
qed

lemma words_loop_chained:
  "chained x t0 (fst st) (snd st) \<Longrightarrow>
   (x \<longrightarrow> (\<forall>w\<in>set ws. CHR 0x27 \<notin> set w \<and> CHR ''-'' \<notin> set w)) \<Longrightarrow>
   chained x t0 (fst (words_loop wi ws st)) (snd (words_loop wi ws st))"
proof (induction ws arbitrary: wi st)
  case Nil
  then show ?case by simp
next
  case (Cons w ws)
  have "chained x t0 (fst (word_step wi w st)) (snd (word_step wi w st))"
    using Cons.prems by (intro word_step_chained) auto
  then show ?case using Cons.prems by (auto intro!: Cons.IH)
qed

lemma split_ws_Nil: "dropWhile (\<lambda>c. \<not> is_space c) s = [] \<Longrightarrow> split_ws s = [s]"
  by (subst split_ws.simps) (simp only: list.case)

lemma split_ws_Cons:
  "dropWhile (\<lambda>c. \<not> is_space c) s = x # r \<Longrightarrow>
   split_ws s = takeWhile (\<lambda>c. \<not> is_space c) s # split_ws (dropWhile is_space r)"
  by (subst split_ws.simps) (simp only: list.case)

lemma split_ws_chars: "w \<in> set (split_ws s) \<Longrightarrow> set w \<subseteq> set s \<and> (\<forall>c\<in>set w. \<not> is_space c)"
proof (induction s arbitrary: w rule: split_ws.induct)
  case (1 s)
  show ?case
  proof (cases "dropWhile (\<lambda>c. \<not> is_space c) s")
    case Nil
    then have "\<forall>c\<in>set s. \<not> is_space c" by (simp add: dropWhile_eq_Nil_conv)
    moreover from "1.prems" have "w = s" by (simp add: split_ws_Nil [OF Nil])
    ultimately show ?thesis by simp
  next
    case (Cons x r)
    from "1.prems" have
      "w = takeWhile (\<lambda>c. \<not> is_space c) s \<or> w \<in> set (split_ws (dropWhile is_space r))"
      by (simp add: split_ws_Cons [OF Cons])
    then show ?thesis
    proof
      assume w: "w = takeWhile (\<lambda>c. \<not> is_space c) s"
      show ?thesis unfolding w
        by (auto dest: set_takeWhileD)
    next
      assume "w \<in> set (split_ws (dropWhile is_space r))"
      from "1.IH" [OF Cons this]
      have a: "set w \<subseteq> set (dropWhile is_space r)" and b: "\<forall>c\<in>set w. \<not> is_space c"
        by simp_all
      have "set (dropWhile is_space r) \<subseteq> set r" by (rule set_dropWhileD [THEN subsetI])
      also have "set r \<subseteq> set (dropWhile (\<lambda>c. \<not> is_space c) s)" using Cons by auto
      also have "\<dots> \<subseteq> set s" by (rule set_dropWhileD [THEN subsetI])
      finally show ?thesis using a b by blast
    qed
  qed
qed

lemma toLowerCase_char_quote: "toLowerCase_char c = CHR 0x27 \<Longrightarrow> c = CHR 0x27"
  by (auto simp: toLowerCase_char_def Let_def split: if_splits
      dest!: arg_cong [where f = "of_char :: char \<Rightarrow> nat"])

lemma toLowerCase_char_hyphen: "toLowerCase_char c = CHR ''-'' \<Longrightarrow> c = CHR ''-''"
  by (auto simp: toLowerCase_char_def Let_def split: if_splits
      dest!: arg_cong [where f = "of_char :: char \<Rightarrow> nat"])

lemma words_of_chars:
  assumes "w \<in> set (words_of text)"
  shows "set w \<subseteq> toLowerCase_char ` set text" and "\<forall>c\<in>set w. keep_text c \<and> \<not> is_space c"
  using split_ws_chars [OF assms [unfolded words_of_def]]
  by (auto simp: toLowerCase_def)

text \<open>
  Claim C1, as the code has it. The clock moves by \<open>BASE_CHAR_DURATION\<close> (0.06 s) for
  every character the loop visits, whatever duration is written into the event, and by
  the duration of a silence event after it. For every text, the next event starts no
  earlier than the time of an event plus its clock step, and \<open>totalDuration\<close> is at least
  the sum of the clock steps; both hold with equality when the text has neither
  apostrophe nor hyphen (a character without a viseme takes a slot of the clock and
  pushes no event). The durations of the events of characters (0.054, 0.072 or 0.0828)
  differ from the step, so these events overlap or leave gaps.
\<close>

theorem clock_advances_by_fixed_steps:
  "(\<forall>i. i + 1 < length (phonemes (generatePhonemeData text)) \<longrightarrow>
        time (phonemes (generatePhonemeData text) ! i) +
          clock_step (phonemes (generatePhonemeData text) ! i)
        \<le> time (phonemes (generatePhonemeData text) ! (i + 1))) \<and>
   sum_list (map clock_step (phonemes (generatePhonemeData text)))
     \<le> totalDuration (generatePhonemeData text) \<and>
   (CHR 0x27 \<notin> set text \<and> CHR ''-'' \<notin> set text \<longrightarrow>
      (\<forall>i. i + 1 < length (phonemes (generatePhonemeData text)) \<longrightarrow>
         time (phonemes (generatePhonemeData text) ! (i + 1)) =
           time (phonemes (generatePhonemeData text) ! i) +
           clock_step (phonemes (generatePhonemeData text) ! i)) \<and>
      totalDuration (generatePhonemeData text) =
        sum_list (map clock_step (phonemes (generatePhonemeData text))))"
proof -
  let ?st = "words_loop 0 (words_of text) ([], 0)"
  have eqs: "phonemes (generatePhonemeData text) = fst ?st"
    "totalDuration (generatePhonemeData text) = snd ?st"
    by (simp_all add: generatePhonemeData_def Let_def)
  have le: "chained False 0 (fst ?st) (snd ?st)"
    by (rule words_loop_chained) simp_all
  have ex: "chained True 0 (fst ?st) (snd ?st)"
    if "CHR 0x27 \<notin> set text \<and> CHR ''-'' \<notin> set text"
  proof (rule words_loop_chained)
    show "chained True 0 (fst ([], 0)) (snd ([], 0::real))" by simp
    show "True \<longrightarrow> (\<forall>w\<in>set (words_of text). CHR 0x27 \<notin> set w \<and> CHR ''-'' \<notin> set w)"
    proof (intro impI ballI)
      fix w assume "w \<in> set (words_of text)"
      then have "set w \<subseteq> toLowerCase_char ` set text" by (rule words_of_chars(1))
      then show "CHR 0x27 \<notin> set w \<and> CHR ''-'' \<notin> set w"
        using that
        by (auto dest: toLowerCase_char_quote [OF sym] toLowerCase_char_hyphen [OF sym])
    qed
  qed
  show ?thesis
    unfolding eqs
    using chained_adjacent [OF le] chained_sum [OF le] chained_adjacent [OF ex] chained_sum [OF ex]
    by (auto simp: rel_t_def)
qed

lemma char_step_events:
  "i < length w \<Longrightarrow>
   \<exists>evs. fst (fst (char_step w e i st)) = fst st @ evs \<and> (\<forall>x\<in>set evs. from_char w e x)"
  by (cases "viseme_at w i") (auto simp: char_step_def from_char_def)

lemma char_loop_events:
  "\<exists>evs. fst (char_loop w e i st) = fst st @ evs \<and> (\<forall>x\<in>set evs. from_char w e x)"
proof (induction w e i st rule: char_loop.induct)
  case (1 word wordEmphasis i st)
  show ?case
  proof (cases "i < length word")
    case True
    from char_step_events [OF True, of wordEmphasis st] obtain evs1 where
      a: "fst (fst (char_step word wordEmphasis i st)) = fst st @ evs1"
      and b: "\<forall>x\<in>set evs1. from_char word wordEmphasis x" by blast
    from "1.IH" [OF True] obtain evs2 where
      c: "fst (char_loop word wordEmphasis (snd (char_step word wordEmphasis i st) + 1)
            (fst (char_step word wordEmphasis i st))) =
          fst (fst (char_step word wordEmphasis i st)) @ evs2"
      and d: "\<forall>x\<in>set evs2. from_char word wordEmphasis x" by blast
    have "fst (char_loop word wordEmphasis i st) = fst st @ (evs1 @ evs2)"
      using True a c by (subst char_loop.simps) simp
    moreover have "\<forall>x\<in>set (evs1 @ evs2). from_char word wordEmphasis x"
      using b d by auto
    ultimately show ?thesis by blast
  next
    case False
    then have "fst (char_loop word wordEmphasis i st) = fst st @ []"
      by (subst char_loop.simps) simp
    then show ?thesis by fastforce
  qed
qed

lemma from_char_not_sil: "from_char w e x \<Longrightarrow> \<not> is_sil x"
  by (auto simp: from_char_def is_sil_def dest: viseme_at_no_sil)

lemma pauseDuration_Nil: "pauseDuration [] = WORD_GAP"
  by (simp add: pauseDuration_def)

lemma word_step_empty:
  "filter keep_word rw = [] \<Longrightarrow>
   word_step wi rw st =
     (if punct_of rw \<noteq> [] then push_sil (pauseDuration (punct_of rw)) st else st)"
  by (simp add: word_step_def Let_def)

lemma word_step_nonempty:
  "filter keep_word rw \<noteq> [] \<Longrightarrow>
   word_step wi rw st =
     push_sil (pauseDuration (punct_of rw))
       (char_loop (filter keep_word rw) (emphasis wi) 0 st)"
  by (simp add: word_step_def Let_def emphasis_def pauseDuration_Nil)

lemma word_step_events:
  "\<exists>evs. fst (word_step wi rw st) = fst st @ evs \<and>
     (\<forall>x\<in>set evs. is_sil x \<or> from_char (filter keep_word rw) (emphasis wi) x)"
proof (cases "filter keep_word rw = []")
  case True
  then have "fst (word_step wi rw st) = fst st @ [] \<or>
    fst (word_step wi rw st) = fst st @
      [\<lparr>viseme = ''viseme_sil'', time = snd st, duration = pauseDuration (punct_of rw),
        intensity = 0\<rparr>]"
    by (simp add: word_step_empty push_sil_def)
  then show ?thesis
  proof
    assume "fst (word_step wi rw st) = fst st @ []"
    then show ?thesis by fastforce
  next
    assume a: "fst (word_step wi rw st) = fst st @
      [\<lparr>viseme = ''viseme_sil'', time = snd st, duration = pauseDuration (punct_of rw),
        intensity = 0\<rparr>]"
    show ?thesis
      by (rule exI, rule conjI, rule a) (simp add: is_sil_def)
  qed
next
  case False
  let ?st' = "char_loop (filter keep_word rw) (emphasis wi) 0 st"
  from char_loop_events [of "filter keep_word rw" "emphasis wi" 0 st] obtain evs where
    a: "fst ?st' = fst st @ evs"
    and b: "\<forall>x\<in>set evs. from_char (filter keep_word rw) (emphasis wi) x" by blast
  obtain d where w: "word_step wi rw st = push_sil d ?st'"
    using word_step_nonempty [OF False] by blast
  have "fst (word_step wi rw st) = fst st @ (evs @
      [\<lparr>viseme = ''viseme_sil'', time = snd ?st', duration = d, intensity = 0\<rparr>])"
    by (simp add: w push_sil_def a)
  moreover have "\<forall>x\<in>set (evs @
      [\<lparr>viseme = ''viseme_sil'', time = snd ?st', duration = d, intensity = 0\<rparr>]).
      is_sil x \<or> from_char (filter keep_word rw) (emphasis wi) x"
    using b by (auto simp: is_sil_def)
  ultimately show ?thesis by blast
qed

lemma words_loop_events:
  "x \<in> set (fst (words_loop wi ws st)) \<Longrightarrow>
   x \<in> set (fst st) \<or> is_sil x \<or>
   (\<exists>k<length ws. from_char (filter keep_word (ws ! k)) (emphasis (wi + k)) x)"
proof (induction ws arbitrary: wi st)
  case Nil
  then show ?case by simp
next
  case (Cons w ws)
  from Cons.prems have "x \<in> set (fst (words_loop (wi + 1) ws (word_step wi w st)))" by simp
  from Cons.IH [OF this] consider
    (old) "x \<in> set (fst (word_step wi w st))" | (sil) "is_sil x"
    | (later) k where "k < length ws"
        "from_char (filter keep_word (ws ! k)) (emphasis (wi + 1 + k)) x"
    by blast
  then show ?case
  proof cases
    case old
    from word_step_events [of wi w st] obtain evs where
      a: "fst (word_step wi w st) = fst st @ evs"
      and b: "\<forall>x\<in>set evs. is_sil x \<or> from_char (filter keep_word w) (emphasis wi) x"
      by blast
    from old a b have "x \<in> set (fst st) \<or> is_sil x \<or>
        from_char (filter keep_word ((w # ws) ! 0)) (emphasis (wi + 0)) x"
      by auto
    then show ?thesis by (metis length_greater_0_conv list.discI)
  next
    case sil
    then show ?thesis by simp
  next
    case later
    then have "Suc k < length (w # ws)"
      and "from_char (filter keep_word ((w # ws) ! Suc k)) (emphasis (wi + Suc k)) x"
      by simp_all
    then show ?thesis by blast
  qed
qed

lemma event_provenance:
  assumes "x \<in> set (phonemes (generatePhonemeData text))" and "\<not> is_sil x"
  shows "\<exists>wi<length (words_of text).
           from_char (filter keep_word (words_of text ! wi)) (emphasis wi) x"
  using words_loop_events [of x 0 "words_of text" "([], 0)"] assms
  by (simp add: generatePhonemeData_def Let_def)

lemma all_punct_punct_of: "\<forall>c\<in>set w. is_punct c \<Longrightarrow> punct_of w = w"
  by (simp add: punct_of_def takeWhile_eq_all_conv [THEN iffD2])

lemma token_empty_iff:
  assumes "\<forall>c\<in>set w. keep_text c \<and> \<not> is_space c"
  shows "(filter keep_word w = [] \<and> punct_of w = []) \<longleftrightarrow> w = []"
proof
  assume a: "filter keep_word w = [] \<and> punct_of w = []"
  then have "\<forall>c\<in>set w. \<not> keep_word c" by (simp add: filter_empty_conv)
  with assms have "\<forall>c\<in>set w. is_punct c"
    by (auto simp: keep_text_def keep_word_def)
  then have "punct_of w = w" by (rule all_punct_punct_of)
  with a show "w = []" by simp
next
  assume "w = []"
  then show "filter keep_word w = [] \<and> punct_of w = []" by (simp add: punct_of_def)
qed

lemma char_step_next:
  "snd (char_step word e i st) + 1 =
     (if CHAR_TO_VISEME (digraph_at word i) \<noteq> None then i + 2 else i + 1)"
  by (auto simp: char_step_def viseme_at_def split: option.splits)

lemma event_values_char_event:
  "event_values (char_event word e i t v) = (v, snd (char_values word e i))"
proof -
  have "i < length word - 1 \<longleftrightarrow> i + 1 < length word" by auto
  then show ?thesis by (simp add: event_values_def char_event_def char_values_def Let_def)
qed

lemma char_step_values:
  "map event_values (fst (fst (char_step word e i st))) =
     map event_values (fst st) @
     map (char_values word e) (filter (\<lambda>p. viseme_at word p \<noteq> None) [i])"
  by (auto simp: char_step_def event_values_char_event char_values_def split: option.splits)

lemma char_loop_values:
  "map event_values (fst (char_loop word e i st)) =
     map event_values (fst st) @
     map (char_values word e) (filter (\<lambda>p. viseme_at word p \<noteq> None) (scan_positions word i))"
proof (induction word e i st rule: char_loop.induct)
  case (1 word e i st)
  show ?case
  proof (cases "i < length word")
    case True
    have "char_loop word e i st =
        char_loop word e (snd (char_step word e i st) + 1) (fst (char_step word e i st))"
      using True by (subst char_loop.simps) simp
    moreover have "scan_positions word i = i # scan_positions word (snd (char_step word e i st) + 1)"
      using True char_step_next [of word e i st] by (subst scan_positions.simps) auto
    ultimately show ?thesis
      using 1 [OF True] by (simp add: char_step_values)
  next
    case False
    then have "char_loop word e i st = st" by (subst char_loop.simps) simp
    moreover have "scan_positions word i = []" using False by (subst scan_positions.simps) simp
    ultimately show ?thesis by simp
  qed
qed

lemma mapped_positions_Nil: "mapped_positions [] = []"
  by (simp add: mapped_positions_def scan_positions.simps)

lemma push_sil_values:
  "map event_values (fst (push_sil d st)) = map event_values (fst st) @ [(''viseme_sil'', d, 0)]"
  by (simp add: push_sil_def event_values_def)

lemma word_step_values:
  assumes "(filter keep_word w = [] \<and> punct_of w = []) \<longleftrightarrow> w = []"
  shows "map event_values (fst (word_step wi w st)) = map event_values (fst st) @ piece_values wi w"
proof (cases "filter keep_word w = []")
  case True
  with assms show ?thesis
    by (auto simp: word_step_empty push_sil_values piece_values_def mapped_positions_Nil)
next
  case False
  then have "w \<noteq> []" by auto
  with False show ?thesis
    by (simp add: word_step_nonempty push_sil_values char_loop_values piece_values_def
        mapped_positions_def)
qed

lemma words_loop_values:
  "\<forall>w\<in>set ws. (filter keep_word w = [] \<and> punct_of w = []) \<longleftrightarrow> w = [] \<Longrightarrow>
   map event_values (fst (words_loop wi ws st)) =
     map event_values (fst st) @ concat (map (\<lambda>(k, w). piece_values k w) (enumerate wi ws))"
proof (induction ws arbitrary: wi st)
  case Nil
  show ?case by simp
next
  case (Cons w ws)
  from Cons.prems have rest: "\<forall>w\<in>set ws. (filter keep_word w = [] \<and> punct_of w = []) \<longleftrightarrow> w = []"
    and this_w: "(filter keep_word w = [] \<and> punct_of w = []) \<longleftrightarrow> w = []" by simp_all
  show ?case
    using Cons.IH [OF rest, of "wi + 1" "word_step wi w st"] word_step_values [OF this_w, of wi st]
    by simp
qed

lemma generated_values:
  "map event_values (phonemes (generatePhonemeData text)) =
     concat (map (\<lambda>(k, w). piece_values k w) (enumerate 0 (words_of text)))"
proof -
  have tok: "\<forall>w\<in>set (words_of text). (filter keep_word w = [] \<and> punct_of w = []) \<longleftrightarrow> w = []"
    using words_of_chars(2) token_empty_iff by blast
  show ?thesis
    using words_loop_values [OF tok, of 0 "([], 0)"]
    by (simp add: generatePhonemeData_def Let_def)
qed

lemma map_enumerate_snd: "map (\<lambda>(k, w). g w) (enumerate n ws) = map g ws"
  by (induction ws arbitrary: n) simp_all

lemma piece_pairs:
  "map (\<lambda>(v, d, i). (v, d)) (piece_values k w) =
     (if w = [] then []
      else map (\<lambda>p. (the (viseme_at (filter keep_word w) p),
                  BASE_CHAR_DURATION * (if isVowel (filter keep_word w ! p) then 1.2 else 0.9) *
                    (if isVowel (filter keep_word w ! p) \<and> p + 1 < length (filter keep_word w) \<and>
                        \<not> isVowel (filter keep_word w ! (p + 1))
                     then 1.15 else 1)))
             (mapped_positions (filter keep_word w)) @
           [(''viseme_sil'', pauseDuration (punct_of w))])"
  by (simp add: piece_values_def char_values_def)

lemma piece_intensities:
  "map (\<lambda>(v, d, i). i) (piece_values k w) =
     (if w = [] then []
      else map (\<lambda>p. min 1 ((if isVowel (filter keep_word w ! p) then 0.75 else 0.5) *
                           (if k = 0 then 1.1 else 1)))
             (mapped_positions (filter keep_word w)) @ [0])"
  by (simp add: piece_values_def char_values_def emphasis_def)

text \<open>
  Claim C4, as the code has it. The events of the generated sequence are, piece by piece
  of the split text, the events of the mapped characters the loop visits, in that order,
  then one silence event. The event of the character at index \<open>p\<close> of a word has the
  viseme of the table there and the base duration times 1.2 for a vowel and 0.9
  otherwise, times 1.15 exactly when the character is a vowel, a next character exists
  and that character is not a vowel (a consonant, an apostrophe or a hyphen). Its
  intensity is 0.75 for a vowel and 0.5 otherwise, times 1.1 in the first word and 1.0 in
  the others, capped at 1; the intensities are stated for a text whose first piece has a
  letter, where the first word is the piece at index 0.
\<close>

theorem event_duration_and_intensity:
  "map (\<lambda>e. (viseme e, duration e)) (phonemes (generatePhonemeData text)) =
     concat (map (\<lambda>w. if w = [] then []
         else map (\<lambda>p. (the (viseme_at (filter keep_word w) p),
                  BASE_CHAR_DURATION * (if isVowel (filter keep_word w ! p) then 1.2 else 0.9) *
                    (if isVowel (filter keep_word w ! p) \<and> p + 1 < length (filter keep_word w) \<and>
                        \<not> isVowel (filter keep_word w ! (p + 1))
                     then 1.15 else 1)))
                (mapped_positions (filter keep_word w)) @
              [(''viseme_sil'', pauseDuration (punct_of w))])
       (words_of text)) \<and>
   ((\<exists>c\<in>set (hd (words_of text)). is_az c) \<longrightarrow>
    map intensity (phonemes (generatePhonemeData text)) =
      concat (map (\<lambda>(wi, w). if w = [] then []
          else map (\<lambda>p. min 1 ((if isVowel (filter keep_word w ! p) then 0.75 else 0.5) *
                               (if wi = 0 then 1.1 else 1)))
                 (mapped_positions (filter keep_word w)) @ [0])
        (enumerate 0 (words_of text))))"
proof -
  have "map (\<lambda>e. (viseme e, duration e)) (phonemes (generatePhonemeData text)) =
      map (\<lambda>(v, d, i). (v, d)) (map event_values (phonemes (generatePhonemeData text)))"
    by (simp add: event_values_def)
  also have "\<dots> = concat (map (\<lambda>(k, w). map (\<lambda>(v, d, i). (v, d)) (piece_values k w))
      (enumerate 0 (words_of text)))"
    by (simp add: generated_values map_concat comp_def case_prod_unfold)
  finally have a: "map (\<lambda>e. (viseme e, duration e)) (phonemes (generatePhonemeData text)) =
      concat (map (\<lambda>(k, w). map (\<lambda>(v, d, i). (v, d)) (piece_values k w))
        (enumerate 0 (words_of text)))" .
  have "map intensity (phonemes (generatePhonemeData text)) =
      map (\<lambda>(v, d, i). i) (map event_values (phonemes (generatePhonemeData text)))"
    by (simp add: event_values_def)
  also have "\<dots> = concat (map (\<lambda>(k, w). map (\<lambda>(v, d, i). i) (piece_values k w))
      (enumerate 0 (words_of text)))"
    by (simp add: generated_values map_concat comp_def case_prod_unfold)
  finally have b: "map intensity (phonemes (generatePhonemeData text)) =
      concat (map (\<lambda>(k, w). map (\<lambda>(v, d, i). i) (piece_values k w))
        (enumerate 0 (words_of text)))" .
  show ?thesis
    unfolding a b piece_pairs piece_intensities map_enumerate_snd by simp
qed

theorem event_duration_and_intensity_witness:
  "(\<exists>c\<in>set (hd (words_of ''aba i'm'')). is_az c) \<and>
   map (\<lambda>e. (viseme e, duration e)) (phonemes (generatePhonemeData ''aba i'm'')) =
     [(''viseme_aa'', 0.0828), (''viseme_PP'', 0.054), (''viseme_aa'', 0.072),
      (''viseme_sil'', 0.07),
      (''viseme_I'', 0.0828), (''viseme_PP'', 0.054), (''viseme_sil'', 0.07)] \<and>
   map intensity (phonemes (generatePhonemeData ''aba i'm'')) =
     [0.825, 0.55, 0.825, 0, 0.75, 0.5, 0]"
proof -
  have h: "\<exists>c\<in>set (hd (words_of ''aba i'm'')). is_az c" by code_simp
  have a: "concat (map (\<lambda>w. if w = [] then []
         else map (\<lambda>p. (the (viseme_at (filter keep_word w) p),
                  BASE_CHAR_DURATION * (if isVowel (filter keep_word w ! p) then 1.2 else 0.9) *
                    (if isVowel (filter keep_word w ! p) \<and> p + 1 < length (filter keep_word w) \<and>
                        \<not> isVowel (filter keep_word w ! (p + 1))
                     then 1.15 else 1)))
                (mapped_positions (filter keep_word w)) @
              [(''viseme_sil'', pauseDuration (punct_of w))])
       (words_of ''aba i'm'')) =
     [(''viseme_aa'', 0.0828), (''viseme_PP'', 0.054), (''viseme_aa'', 0.072),
      (''viseme_sil'', 0.07),
      (''viseme_I'', 0.0828), (''viseme_PP'', 0.054), (''viseme_sil'', 0.07)]"
    by code_simp
  have b: "concat (map (\<lambda>(wi, w). if w = [] then []
          else map (\<lambda>p. min 1 ((if isVowel (filter keep_word w ! p) then 0.75 else 0.5) *
                               (if wi = 0 then 1.1 else 1)))
                 (mapped_positions (filter keep_word w)) @ [0])
        (enumerate 0 (words_of ''aba i'm''))) = [0.825 :: real, 0.55, 0.825, 0, 0.75, 0.5, 0]"
    by code_simp
  from event_duration_and_intensity [of "''aba i'm''"] h show ?thesis
    unfolding a b by blast
qed

text \<open>
  Claim C4 as stated fails on the text \<open>i'm\<close>: the character after the vowel is an
  apostrophe, which is not a consonant, and the event still carries the factor 1.15.
\<close>

theorem stress_rule_counterexample:
  "filter keep_word (words_of ''i'm'' ! 0) = ''i'm'' \<and>
   viseme_at ''i'm'' 0 = Some (viseme (phonemes (generatePhonemeData ''i'm'') ! 0)) \<and>
   \<not> is_consonant (''i'm'' ! 1) \<and>
   spec_duration ''i'm'' 0 = BASE_CHAR_DURATION * 1.2 \<and>
   duration (phonemes (generatePhonemeData ''i'm'') ! 0) = BASE_CHAR_DURATION * 1.2 * 1.15 \<and>
   duration (phonemes (generatePhonemeData ''i'm'') ! 0) \<noteq> spec_duration ''i'm'' 0"
  by code_simp

lemma char_loop_no_sil:
  "\<exists>evs. fst (char_loop w e i st) = fst st @ evs \<and> (\<forall>x\<in>set evs. \<not> is_sil x)"
  using char_loop_events [of w e i st] from_char_not_sil by blast

lemma word_segmentI:
  "\<forall>x\<in>set evs. \<not> is_sil x \<Longrightarrow> is_sil e \<Longrightarrow> intensity e = 0 \<Longrightarrow>
   duration e = pauseDuration (punct_of w) \<Longrightarrow> word_segment w (evs @ [e])"
  by (auto simp: word_segment_def)

lemma word_step_segment:
  assumes "\<not> (filter keep_word w = [] \<and> punct_of w = [])"
  shows "\<exists>seg. fst (word_step wi w st) = fst st @ seg \<and> word_segment w seg"
proof (cases "filter keep_word w = []")
  case True
  with assms have "punct_of w \<noteq> []" by simp
  with True have "fst (word_step wi w st) = fst st @ ([] @
      [\<lparr>viseme = ''viseme_sil'', time = snd st, duration = pauseDuration (punct_of w),
        intensity = 0\<rparr>])"
    by (simp add: word_step_empty push_sil_def)
  moreover have "word_segment w ([] @
      [\<lparr>viseme = ''viseme_sil'', time = snd st, duration = pauseDuration (punct_of w),
        intensity = 0\<rparr>])"
    by (rule word_segmentI) (simp_all add: is_sil_def)
  ultimately show ?thesis by blast
next
  case False
  let ?st' = "char_loop (filter keep_word w) (emphasis wi) 0 st"
  from char_loop_no_sil [of "filter keep_word w" "emphasis wi" 0 st] obtain evs where
    a: "fst ?st' = fst st @ evs" and b: "\<forall>x\<in>set evs. \<not> is_sil x" by blast
  let ?e = "\<lparr>viseme = ''viseme_sil'', time = snd ?st',
      duration = pauseDuration (punct_of w), intensity = 0\<rparr>"
  have "fst (word_step wi w st) = fst st @ (evs @ [?e])"
    by (simp add: word_step_nonempty [OF False] push_sil_def a)
  moreover have "word_segment w (evs @ [?e])"
    using b by (intro word_segmentI) (simp_all add: is_sil_def)
  ultimately show ?thesis by blast
qed

lemma word_step_skip: "word_step wi [] st = st"
  by (simp add: word_step_def punct_of_def)

lemma words_loop_segments:
  "\<forall>w\<in>set ws. (filter keep_word w = [] \<and> punct_of w = []) \<longleftrightarrow> w = [] \<Longrightarrow>
   \<exists>segs. fst (words_loop wi ws st) = fst st @ concat segs \<and>
          list_all2 word_segment (filter (\<lambda>w. w \<noteq> []) ws) segs"
proof (induction ws arbitrary: wi st)
  case Nil
  have "fst (words_loop wi [] st) = fst st @ concat []" by simp
  moreover have "list_all2 word_segment (filter (\<lambda>w. w \<noteq> []) []) []" by simp
  ultimately show ?case by blast
next
  case (Cons w ws)
  from Cons.prems have rest: "\<forall>w\<in>set ws. (filter keep_word w = [] \<and> punct_of w = []) \<longleftrightarrow> w = []"
    and this_w: "(filter keep_word w = [] \<and> punct_of w = []) \<longleftrightarrow> w = []" by simp_all
  from Cons.IH [OF rest, of "wi + 1" "word_step wi w st"] obtain segs where
    a: "fst (words_loop (wi + 1) ws (word_step wi w st)) = fst (word_step wi w st) @ concat segs"
    and b: "list_all2 word_segment (filter (\<lambda>w. w \<noteq> []) ws) segs" by blast
  show ?case
  proof (cases "w = []")
    case True
    with a b show ?thesis by (auto simp: word_step_skip)
  next
    case False
    with this_w have "\<not> (filter keep_word w = [] \<and> punct_of w = [])" by simp
    from word_step_segment [OF this, of wi st] obtain seg where
      c: "fst (word_step wi w st) = fst st @ seg" and d: "word_segment w seg" by blast
    have "fst (words_loop wi (w # ws) st) = fst st @ concat (seg # segs)"
      using a c by simp
    moreover have "list_all2 word_segment (filter (\<lambda>w. w \<noteq> []) (w # ws)) (seg # segs)"
      using False b d by simp
    ultimately show ?thesis by blast
  qed
qed

lemma pause_classes:
  "pauseDuration ''.'' = 0.35" "pauseDuration ''!'' = 0.3" "pauseDuration ''?'' = 0.3"
  "pauseDuration '','' = 0.2" "pauseDuration [] = 0.07"
  by (simp_all add: pauseDuration_def pause_consts)

lemma keep_text_lower: "keep_text c \<Longrightarrow> toLowerCase_char c = c"
  by (auto simp: keep_text_def is_az_def is_space_def is_punct_def toLowerCase_char_def)

lemma words_of_cleaned: "words_of (filter keep_text (toLowerCase text)) = words_of text"
proof -
  have "map toLowerCase_char (filter keep_text (map toLowerCase_char text)) =
      filter keep_text (map toLowerCase_char text)"
    by (rule map_idI) (simp add: keep_text_lower)
  then show ?thesis by (simp add: words_of_def toLowerCase_def)
qed

lemma take2_drop: "j + 1 < length w \<Longrightarrow> take 2 (drop j w) = [w ! j, w ! (j + 1)]"
proof -
  assume a: "j + 1 < length w"
  then have "drop j w = w ! j # drop (Suc j) w" by (simp add: Cons_nth_drop_Suc)
  also have "drop (Suc j) w = w ! (Suc j) # drop (Suc (Suc j)) w"
    using a by (simp add: Cons_nth_drop_Suc)
  finally show ?thesis by (simp add: numeral_2_eq_2)
qed

lemma digraph_az: "CHAR_TO_VISEME [c, d] = Some v \<Longrightarrow> is_az c"
  unfolding CHAR_TO_VISEME_def
  by (drule map_of_SomeD) (auto simp: CHAR_TO_VISEME_table_def is_az_def)

lemma single_az: "keep_word c \<Longrightarrow> CHAR_TO_VISEME [c] = Some v \<Longrightarrow> is_az c"
  unfolding CHAR_TO_VISEME_def
  by (drule map_of_SomeD) (auto simp: CHAR_TO_VISEME_table_def keep_word_def is_az_def)

lemma table_Nil: "CHAR_TO_VISEME [] = None"
  by (simp add: CHAR_TO_VISEME_def CHAR_TO_VISEME_table_def)

lemma mapped_letter:
  assumes "keep_word (w ! j)" and "viseme_at w j = Some v"
  shows "is_az (w ! j)"
proof (cases "CHAR_TO_VISEME (digraph_at w j)")
  case None
  with assms(2) have "CHAR_TO_VISEME [w ! j] = Some v" by (simp add: viseme_at_def)
  with assms(1) show ?thesis by (rule single_az)
next
  case (Some u)
  then have "j < length w - 1" by (auto simp: digraph_at_def table_Nil split: if_splits)
  then have "digraph_at w j = [w ! j, w ! (j + 1)]"
    by (simp add: digraph_at_def take2_drop)
  with Some show ?thesis by (auto dest: digraph_az)
qed

text \<open>
  Claim C5. The generated sequence is, word after word (for the pieces of the text that
  are not empty), the events of the characters of the word followed by one silence event
  of intensity 0 whose duration is the pause for the punctuation at the end of the word:
  0.35 s for a period, 0.30 s for an exclamation or a question mark, 0.20 s for a comma
  and 0.07 s without punctuation. For \<open>Hello, world!\<close> the comma gives a silence event of
  0.20 s and the exclamation mark one of 0.30 s. Every event that is not a silence event
  comes from a letter a-z of the case-folded text, and deleting the characters outside the
  permitted alphabet from the case-folded text leaves the output unchanged.
\<close>

theorem silence_after_every_word:
  "(\<exists>segs. phonemes (generatePhonemeData text) = concat segs \<and>
      list_all2 word_segment (filter (\<lambda>w. w \<noteq> []) (words_of text)) segs) \<and>
   pauseDuration ''.'' = 0.35 \<and> pauseDuration ''!'' = 0.3 \<and> pauseDuration ''?'' = 0.3 \<and>
   pauseDuration '','' = 0.2 \<and> pauseDuration [] = 0.07 \<and>
   map (\<lambda>e. (viseme e, duration e)) (phonemes (generatePhonemeData ''Hello, world!'')) =
     [(''viseme_CH'', 0.054), (''viseme_E'', 0.0828), (''viseme_DD'', 0.054),
      (''viseme_DD'', 0.054), (''viseme_O'', 0.072), (''viseme_sil'', 0.2),
      (''viseme_U'', 0.054), (''viseme_O'', 0.0828), (''viseme_RR'', 0.054),
      (''viseme_DD'', 0.054), (''viseme_DD'', 0.054), (''viseme_sil'', 0.3)] \<and>
   (\<forall>x\<in>set (phonemes (generatePhonemeData text)). \<not> is_sil x \<longrightarrow>
      (\<exists>w\<in>set (words_of text). \<exists>i<length (filter keep_word w).
         is_az (filter keep_word w ! i) \<and>
         viseme_at (filter keep_word w) i = Some (viseme x))) \<and>
   generatePhonemeData (filter keep_text (toLowerCase text)) = generatePhonemeData text"
proof -
  have tok: "\<forall>w\<in>set (words_of text). (filter keep_word w = [] \<and> punct_of w = []) \<longleftrightarrow> w = []"
    using words_of_chars(2) token_empty_iff by blast
  have a: "\<exists>segs. phonemes (generatePhonemeData text) = concat segs \<and>
      list_all2 word_segment (filter (\<lambda>w. w \<noteq> []) (words_of text)) segs"
    using words_loop_segments [OF tok, of 0 "([], 0)"]
    by (simp add: generatePhonemeData_def Let_def)
  have b: "map (\<lambda>e. (viseme e, duration e)) (phonemes (generatePhonemeData ''Hello, world!'')) =
     [(''viseme_CH'', 0.054), (''viseme_E'', 0.0828), (''viseme_DD'', 0.054),
      (''viseme_DD'', 0.054), (''viseme_O'', 0.072), (''viseme_sil'', 0.2),
      (''viseme_U'', 0.054), (''viseme_O'', 0.0828), (''viseme_RR'', 0.054),
      (''viseme_DD'', 0.054), (''viseme_DD'', 0.054), (''viseme_sil'', 0.3)]"
    by code_simp
  have c: "\<exists>w\<in>set (words_of text). \<exists>i<length (filter keep_word w).
         is_az (filter keep_word w ! i) \<and> viseme_at (filter keep_word w) i = Some (viseme x)"
    if x: "x \<in> set (phonemes (generatePhonemeData text))" and ns: "\<not> is_sil x" for x
  proof -
    from event_provenance [OF x ns] obtain wi j t v where
      wi: "wi < length (words_of text)"
      and j: "j < length (filter keep_word (words_of text ! wi))"
      and v: "viseme_at (filter keep_word (words_of text ! wi)) j = Some v"
      and xe: "x = char_event (filter keep_word (words_of text ! wi)) (emphasis wi) j t v"
      by (auto simp: from_char_def)
    from j have "filter keep_word (words_of text ! wi) ! j \<in> set (filter keep_word (words_of text ! wi))"
      by (rule nth_mem)
    then have "keep_word (filter keep_word (words_of text ! wi) ! j)" by simp
    then have "is_az (filter keep_word (words_of text ! wi) ! j)" using v by (rule mapped_letter)
    moreover have "words_of text ! wi \<in> set (words_of text)" using wi by simp
    moreover have "viseme x = v" by (simp add: xe)
    ultimately show ?thesis using j v by blast
  qed
  have d: "generatePhonemeData (filter keep_text (toLowerCase text)) = generatePhonemeData text"
    by (simp add: generatePhonemeData_def words_of_cleaned)
  from a b c d show ?thesis by (simp add: pause_classes)
qed



lemma vowel_digraph: "isVowel c \<Longrightarrow> CHAR_TO_VISEME [c, d] = None"
  by (auto simp: isVowel_def CHAR_TO_VISEME_def CHAR_TO_VISEME_table_def)

lemma vowel_single: "isVowel c \<Longrightarrow> CHAR_TO_VISEME [c] \<noteq> None"
  by (auto simp: isVowel_def CHAR_TO_VISEME_def CHAR_TO_VISEME_table_def)

lemma vowel_no_digraph:
  assumes "i < length w" and "isVowel (w ! i)"
  shows "CHAR_TO_VISEME (digraph_at w i) = None"
proof (cases "i < length w - 1")
  case True
  then have "digraph_at w i = [w ! i, w ! (i + 1)]" by (simp add: digraph_at_def take2_drop)
  with assms(2) show ?thesis by (simp add: vowel_digraph)
next
  case False
  then show ?thesis by (simp add: digraph_at_def table_Nil)
qed

lemma char_step_all_vowels:
  assumes "i < length w" and "\<forall>c\<in>set w. isVowel c"
  shows "snd (char_step w e i st) = i"
    and "map duration (fst (fst (char_step w e i st))) =
         map duration (fst st) @ [BASE_CHAR_DURATION * 1.2]"
proof -
  from assms have v: "isVowel (w ! i)" by simp
  have nd: "CHAR_TO_VISEME (digraph_at w i) = None" using assms(1) v by (rule vowel_no_digraph)
  from vowel_single [OF v] obtain u where u: "CHAR_TO_VISEME [w ! i] = Some u" by blast
  have va: "viseme_at w i = Some u" by (simp add: viseme_at_def nd u)
  have nxt: "i < length w - 1 \<longrightarrow> isVowel (w ! (i + 1))" using assms(2) by simp
  show "snd (char_step w e i st) = i" by (simp add: char_step_def va nd)
  show "map duration (fst (fst (char_step w e i st))) =
         map duration (fst st) @ [BASE_CHAR_DURATION * 1.2]"
    using v nxt by (auto simp: char_step_def va char_event_def Let_def)
qed

lemma replicate_diff: "i < n \<Longrightarrow> replicate (n - i) x = x # replicate (n - Suc i) x"
  by (metis Suc_diff_Suc replicate_Suc)

lemma vowel_props:
  "isVowel c \<Longrightarrow> keep_text c \<and> keep_word c \<and> \<not> is_space c \<and> \<not> is_punct c"
  by (auto simp: isVowel_def keep_text_def keep_word_def is_az_def is_space_def is_punct_def)

lemma char_loop_all_vowels:
  "\<forall>c\<in>set w. isVowel c \<Longrightarrow>
   map duration (fst (char_loop w e i st)) =
     map duration (fst st) @ replicate (length w - i) (BASE_CHAR_DURATION * 1.2)"
proof (induction w e i st rule: char_loop.induct)
  case (1 word wordEmphasis i st)
  show ?case
  proof (cases "i < length word")
    case True
    note cs = char_step_all_vowels [OF True "1.prems", of wordEmphasis st]
    from "1.IH" [OF True "1.prems"] True show ?thesis
      by (subst char_loop.simps) (simp add: cs replicate_diff [OF True])
  next
    case False
    then show ?thesis by (subst char_loop.simps) simp
  qed
qed

lemma takeWhile_none: "\<forall>c\<in>set s. \<not> P c \<Longrightarrow> takeWhile P s = []"
  by (cases s) auto

text \<open>
  Claim C6, as the code has it. For a text that is one word made of the letters a, e, i,
  o, u only (in either case), every character has an event whose duration is the base
  duration times 1.2; the word gap follows.
\<close>

theorem vowel_only_word_durations:
  assumes "text \<noteq> []" and "set (toLowerCase text) \<subseteq> set ''aeiou''"
  shows "map duration (phonemes (generatePhonemeData text)) =
         replicate (length text) (BASE_CHAR_DURATION * 1.2) @ [WORD_GAP]"
proof -
  let ?w = "toLowerCase text"
  have ne: "?w \<noteq> []" and len: "length ?w = length text"
    using assms(1) by (simp_all add: toLowerCase_def)
  have vow: "\<forall>c\<in>set ?w. isVowel c" using assms(2) by (auto simp: isVowel_def)
  have props: "\<forall>c\<in>set ?w. keep_text c \<and> keep_word c \<and> \<not> is_space c \<and> \<not> is_punct c"
    using vow vowel_props by blast
  have "filter keep_text ?w = ?w" using props by (simp add: filter_id_conv)
  moreover have "dropWhile (\<lambda>c. \<not> is_space c) ?w = []" using props by simp
  ultimately have wo: "words_of text = [?w]" by (simp add: words_of_def split_ws_Nil)
  have kw: "filter keep_word ?w = ?w" using props by (simp add: filter_id_conv)
  have "takeWhile is_punct (rev ?w) = []" using props by (intro takeWhile_none) simp
  then have pn: "punct_of ?w = []" by (simp add: punct_of_def)
  have "word_step 0 ?w ([], 0) =
      push_sil (pauseDuration []) (char_loop ?w (emphasis 0) 0 ([], 0))"
    using word_step_nonempty [of ?w 0 "([], 0)"] ne by (simp add: kw pn)
  then show ?thesis
    using char_loop_all_vowels [OF vow, of "emphasis 0" 0 "([], 0)"]
    by (simp add: generatePhonemeData_def Let_def wo push_sil_def pauseDuration_Nil len)
qed

theorem vowel_only_word_durations_witness:
  "''aeiou'' \<noteq> [] \<and> set (toLowerCase ''aeiou'') \<subseteq> set ''aeiou'' \<and>
   map duration (phonemes (generatePhonemeData ''aeiou'')) =
     replicate (length ''aeiou'') (BASE_CHAR_DURATION * 1.2) @ [WORD_GAP]"
proof -
  have a: "''aeiou'' \<noteq> []" by simp
  have b: "set (toLowerCase ''aeiou'') \<subseteq> set ''aeiou''" by code_simp
  from vowel_only_word_durations [OF a b] a b show ?thesis by blast
qed

text \<open>
  Claim C6 as stated fails on its own example: the generator counts y as a consonant, so
  the event of the y in \<open>eye\<close> has the base duration times 0.9.
\<close>

theorem eye_counterexample:
  "viseme_at ''eye'' 1 = Some (viseme (phonemes (generatePhonemeData ''eye'') ! 1)) \<and>
   duration (phonemes (generatePhonemeData ''eye'') ! 1) = BASE_CHAR_DURATION * 0.9 \<and>
   duration (phonemes (generatePhonemeData ''eye'') ! 1) \<noteq> BASE_CHAR_DURATION * 1.2"
  by code_simp

text \<open>
  Claim C1 as stated fails on the text \<open>a\<close>: the vowel event lasts 0.072 s and the silence
  event starts at 0.06 s, and \<open>totalDuration\<close> is 0.13 while the durations add up to 0.142.
\<close>

theorem contiguity_counterexample:
  "totalDuration (generatePhonemeData ''a'') \<noteq>
     sum_list (map duration (phonemes (generatePhonemeData ''a''))) \<and>
   time (phonemes (generatePhonemeData ''a'') ! 1) \<noteq>
     time (phonemes (generatePhonemeData ''a'') ! 0) +
     duration (phonemes (generatePhonemeData ''a'') ! 0)"
  by code_simp

theorem clock_advances_by_fixed_steps_witness:
  "0 + 1 < length (phonemes (generatePhonemeData ''Hi there'')) \<and>
   CHR 0x27 \<notin> set ''Hi there'' \<and> CHR ''-'' \<notin> set ''Hi there'' \<and>
   time (phonemes (generatePhonemeData ''Hi there'') ! (0 + 1)) =
     time (phonemes (generatePhonemeData ''Hi there'') ! 0) +
     clock_step (phonemes (generatePhonemeData ''Hi there'') ! 0) \<and>
   totalDuration (generatePhonemeData ''Hi there'') =
     sum_list (map clock_step (phonemes (generatePhonemeData ''Hi there'')))"
proof -
  have a: "0 + 1 < length (phonemes (generatePhonemeData ''Hi there''))" by code_simp
  have b: "CHR 0x27 \<notin> set ''Hi there'' \<and> CHR ''-'' \<notin> set ''Hi there''" by simp
  from clock_advances_by_fixed_steps [of "''Hi there''"] a b show ?thesis by blast
qed

theorem silence_after_every_word_witness:
  "phonemes (generatePhonemeData ''Hi, you.'') ! 0 \<in> set (phonemes (generatePhonemeData ''Hi, you.'')) \<and>
   \<not> is_sil (phonemes (generatePhonemeData ''Hi, you.'') ! 0) \<and>
   (\<exists>w\<in>set (words_of ''Hi, you.''). \<exists>i<length (filter keep_word w).
      is_az (filter keep_word w ! i) \<and>
      viseme_at (filter keep_word w) i =
        Some (viseme (phonemes (generatePhonemeData ''Hi, you.'') ! 0))) \<and>
   (\<exists>segs. phonemes (generatePhonemeData ''Hi, you.'') = concat segs \<and>
      list_all2 word_segment [''hi,'', ''you.''] segs)"
proof -
  have a: "phonemes (generatePhonemeData ''Hi, you.'') ! 0 \<in> set (phonemes (generatePhonemeData ''Hi, you.''))"
    by code_simp
  have b: "\<not> is_sil (phonemes (generatePhonemeData ''Hi, you.'') ! 0)" by code_simp
  have c: "filter (\<lambda>w. w \<noteq> []) (words_of ''Hi, you.'') = [''hi,'', ''you.'']" by code_simp
  from silence_after_every_word [of "''Hi, you.''"] a b show ?thesis
    unfolding c by blast
qed

section \<open>Properties of the controller and the compositor\<close>

lemma js_or_zero [simp]: "js_or v 0 = v"
  by (simp add: js_or_def)

lemma setMorph_alt:
  "setMorph n v s =
     (if in_dict s n
      then s\<lparr>morphTargetTarget :=
              (morphTargetTarget s)(n \<mapsto> max (target_of (morphTargetTarget s) n) v)\<rparr>
      else s)"
  by (simp add: setMorph_def in_dict_def split: option.splits)

lemma setMorph_fields [simp]:
  "avatarLoaded (setMorph n v s) = avatarLoaded s"
  "morphDict (setMorph n v s) = morphDict s"
  "hasOculusVisemes (setMorph n v s) = hasOculusVisemes s"
  "hasARKitMorphs (setMorph n v s) = hasARKitMorphs s"
  "isSpeaking (setMorph n v s) = isSpeaking s"
  "lipSyncMode (setMorph n v s) = lipSyncMode s"
  "lipSyncStartTime (setMorph n v s) = lipSyncStartTime s"
  "currentPhonemes (setMorph n v s) = currentPhonemes s"
  "wordVisemeQueue (setMorph n v s) = wordVisemeQueue s"
  "wordVisemeStart (setMorph n v s) = wordVisemeStart s"
  "lipSyncAnimFrame (setMorph n v s) = lipSyncAnimFrame s"
  "talkGesturePhase (setMorph n v s) = talkGesturePhase s"
  "currentEmotion (setMorph n v s) = currentEmotion s"
  "emotionTargetMap (setMorph n v s) = emotionTargetMap s"
  "faceTrackBlink (setMorph n v s) = faceTrackBlink s"
  "faceTrackGazeX (setMorph n v s) = faceTrackGazeX s"
  "faceTrackGazeY (setMorph n v s) = faceTrackGazeY s"
  "blinkAmount (setMorph n v s) = blinkAmount s"
  "blinkTarget (setMorph n v s) = blinkTarget s"
  "elapsedTime (setMorph n v s) = elapsedTime s"
  "smoothGazeX (setMorph n v s) = smoothGazeX s"
  "smoothGazeY (setMorph n v s) = smoothGazeY s"
  "saccadeX (setMorph n v s) = saccadeX s"
  "saccadeY (setMorph n v s) = saccadeY s"
  by (simp_all add: setMorph_alt)

lemma in_dict_setMorph [simp]: "in_dict (setMorph n v s) k = in_dict s k"
  by (simp add: in_dict_def)

lemma target_setMorph:
  "target_of (morphTargetTarget (setMorph n v s)) k =
     (if k = n \<and> in_dict s n then max (target_of (morphTargetTarget s) n) v
      else target_of (morphTargetTarget s) k)"
  by (simp add: setMorph_alt target_of_def)

lemma target_reset [simp]: "target_of (morphTargetTarget (resetMorphTargets s)) k = 0"
  by (simp add: resetMorphTargets_def target_of_def split: option.splits)

lemma raises_refl [simp]: "raises s s"
  by (simp add: raises_def)

lemma raises_trans: "raises a b \<Longrightarrow> raises b c \<Longrightarrow> raises a c"
  by (auto simp: raises_def intro: order_trans)

lemma raises_setMorph: "raises s (setMorph n v s)"
  by (simp add: raises_def target_setMorph)

lemma raises_setMorph': "raises s s' \<Longrightarrow> raises s (setMorph n v s')"
  by (erule raises_trans) (rule raises_setMorph)

lemma raises_same_targets:
  "morphTargetTarget s' = morphTargetTarget s'' \<Longrightarrow> raises s s' \<Longrightarrow> raises s s''"
  by (simp add: raises_def)

lemma raises_apply_mapping: "raises s (apply_mapping m i s)"
proof (induction m i s rule: apply_mapping.induct)
  case (1 inten s)
  then show ?case by simp
next
  case (2 morph weight rest inten s)
  have "raises s (setMorph morph (weight * inten) s)" by (rule raises_setMorph)
  then show ?case using 2 by (auto intro: raises_trans)
qed

lemma raises_applyViseme: "raises s (applyViseme v i s)"
  by (auto simp: applyViseme_def raises_setMorph raises_apply_mapping split: option.splits)

lemma raises_applyViseme': "raises s s' \<Longrightarrow> raises s (applyViseme v i s')"
  by (erule raises_trans) (rule raises_applyViseme)

lemma raises_realtime_loop: "raises s (fst (realtime_loop q elapsed t s))"
proof (induction q elapsed t s rule: realtime_loop.induct)
  case (1 elapsed t s)
  then show ?case by simp
next
  case (2 v rest elapsed t s)
  show ?case
  proof (cases "elapsed \<ge> t \<and> elapsed < t + w_duration v")
    case True
    then show ?thesis
      by (auto simp: Let_def raises_applyViseme raises_applyViseme' split: list.splits)
  next
    case False
    with 2 show ?thesis by auto
  qed
qed

lemma raises_timeline_body: "raises s (timeline_body ph rest elapsed s)"
  by (auto simp: timeline_body_def Let_def raises_applyViseme raises_applyViseme'
      split: list.splits)

lemma raises_timeline_loop: "raises s (timeline_loop phs elapsed s)"
proof (induction phs elapsed s rule: timeline_loop.induct)
  case (1 elapsed s)
  then show ?case by simp
next
  case (2 ph rest elapsed s)
  have "raises s (timeline_body ph rest elapsed s)" by (rule raises_timeline_body)
  then have "raises s (timeline_loop rest elapsed (timeline_body ph rest elapsed s))"
    using "2.IH" by (rule raises_trans)
  then show ?case by simp
qed

lemma stopLipSync_targets [simp]: "morphTargetTarget (stopLipSync s) = morphTargetTarget s"
  by (simp add: stopLipSync_def)

lemma raises_stop [simp]: "raises s (stopLipSync s)"
  by (simp add: raises_def)

lemma raises_realtime_tick: "raises s (realtime_tick elapsed s)"
proof -
  have "raises s ((fst (realtime_loop q e 0 s))\<lparr>wordVisemeQueue := []\<rparr>)" for q e
    using raises_realtime_loop [of s q e 0] by (simp add: raises_def)
  then show ?thesis by (simp add: realtime_tick_def Let_def raises_realtime_loop)
qed

lemma raises_timeline_tick: "raises s (timeline_tick elapsed s)"
  by (simp add: timeline_tick_def raises_timeline_loop split: option.splits)

lemma raises_fallback_tick: "raises s (fallback_tick elapsed s)"
  by (auto simp: fallback_tick_def Let_def raises_applyViseme raises_setMorph
      raises_setMorph' split: option.splits)

lemma raises_tickLipSync: "raises s (tickLipSync now s)"
  by (cases "lipSyncMode s")
     (simp_all add: tickLipSync_def raises_realtime_tick raises_timeline_tick
        raises_fallback_tick)

lemma raises_emotion_approach: "raises s (emotion_approach names rate s)"
proof (induction names rate s rule: emotion_approach.induct)
  case (1 rate s)
  then show ?case by simp
next
  case (2 name rest rate s)
  let ?v = "lookup0 (currentEmotion s) name +
      (lookup0 (emotionTargetMap s) name - lookup0 (currentEmotion s) name) * rate"
  let ?s' = "setMorph name ?v (s\<lparr>currentEmotion := AList.update name ?v (currentEmotion s)\<rparr>)"
  have "raises s ?s'" by (simp add: raises_def target_setMorph in_dict_def)
  moreover have "raises ?s' (emotion_approach rest rate ?s')"
    using "2.IH" [OF refl refl refl] by (simp add: Let_def)
  ultimately have "raises s (emotion_approach rest rate ?s')" by (rule raises_trans)
  then show ?case by (simp add: Let_def)
qed

lemma raises_emotion_decay: "raises s (emotion_decay names rate s)"
proof (induction names rate s rule: emotion_decay.induct)
  case (1 rate s)
  then show ?case by simp
next
  case (2 name rest rate s)
  let ?v = "(case map_of (currentEmotion s) name of None \<Rightarrow> 0 | Some c \<Rightarrow> c) * (1 - rate)"
  let ?a = "s\<lparr>currentEmotion := AList.delete name (currentEmotion s)\<rparr>"
  let ?b = "setMorph name ?v (s\<lparr>currentEmotion := AList.update name ?v (currentEmotion s)\<rparr>)"
  show ?case
  proof (cases "name \<notin> set (map fst (emotionTargetMap s))")
    case False
    with "2.IH"(3) show ?thesis by simp
  next
    case True
    show ?thesis
    proof (cases "?v < 0.005")
      case small: True
      have "raises s ?a" by (simp add: raises_def)
      moreover have "raises ?a (emotion_decay rest rate ?a)"
        using "2.IH"(1) [OF True refl small] .
      ultimately have "raises s (emotion_decay rest rate ?a)" by (rule raises_trans)
      with True small show ?thesis by (simp add: Let_def)
    next
      case big: False
      have "raises s ?b" by (simp add: raises_def target_setMorph in_dict_def)
      moreover have "raises ?b (emotion_decay rest rate ?b)"
        using "2.IH"(2) [OF True refl big] .
      ultimately have "raises s (emotion_decay rest rate ?b)" by (rule raises_trans)
      with True big show ?thesis by (simp add: Let_def)
    qed
  qed
qed

lemma raises_updateEmotionMorphs: "raises s (updateEmotionMorphs delta s)"
  unfolding updateEmotionMorphs_def Let_def
  by (rule raises_trans [OF raises_emotion_approach raises_emotion_decay])

lemma raises_microExpressions: "raises s (microExpressions t s)"
  unfolding microExpressions_def Let_def
  by (intro raises_setMorph' raises_refl)

lemma raises_upd:
  "morphTargetTarget s' = morphTargetTarget s \<Longrightarrow> raises s s'"
  by (simp add: raises_def)

lemma raises_updateEyeGaze: "raises s (updateEyeGaze delta fr s)"
  unfolding updateEyeGaze_def Let_def
  by (auto intro!: raises_setMorph' intro: raises_upd)

lemma raises_updateBlink: "raises s (updateBlink t delta fr s)"
  unfolding updateBlink_def Let_def
  by (auto intro!: raises_setMorph' intro: raises_upd split: option.splits)


lemma reset_fields [simp]:
  "morphDict (resetMorphTargets s) = morphDict s"
  "hasOculusVisemes (resetMorphTargets s) = hasOculusVisemes s"
  "hasARKitMorphs (resetMorphTargets s) = hasARKitMorphs s"
  "currentEmotion (resetMorphTargets s) = currentEmotion s"
  "emotionTargetMap (resetMorphTargets s) = emotionTargetMap s"
  "in_dict (resetMorphTargets s) k = in_dict s k"
  by (simp_all add: resetMorphTargets_def in_dict_def)

lemma emotion_over_lipsync:
  assumes "in_dict s ''jawOpen''" and "hasARKitMorphs s"
    and "\<not> (hasOculusVisemes s \<and> in_dict s ''viseme_aa'')"
    and "currentEmotion s = [(''jawOpen'', 0.3)]"
    and "emotionTargetMap s = [(''jawOpen'', 0.3)]"
  shows "target_of (morphTargetTarget (applyViseme ''viseme_aa'' 0.8 (resetMorphTargets s)))
           ''jawOpen'' = 0.6"
    and "target_of (morphTargetTarget
           (updateEmotionMorphs delta (applyViseme ''viseme_aa'' 0.8 (resetMorphTargets s))))
           ''jawOpen'' = 0.6"
proof -
  let ?s1 = "applyViseme ''viseme_aa'' 0.8 (resetMorphTargets s)"
  from assms(1) obtain keys where k: "morphDict s = Some keys" "''jawOpen'' \<in> set keys"
    by (auto simp: in_dict_def split: option.splits)
  have s1: "?s1 = setMorph ''mouthFunnel'' (0.2 * 0.8)
      (setMorph ''jawOpen'' (0.75 * 0.8) (resetMorphTargets s))"
    using assms(2,3) k by (auto simp: applyViseme_def VISEME_TO_ARKIT_def in_dict_def)
  show a: "target_of (morphTargetTarget ?s1) ''jawOpen'' = 0.6"
    unfolding s1 using assms(1) by (simp add: target_setMorph)
  have e: "currentEmotion ?s1 = [(''jawOpen'', 0.3)]" "emotionTargetMap ?s1 = [(''jawOpen'', 0.3)]"
    "in_dict ?s1 ''jawOpen''"
    unfolding s1 using assms by simp_all
  show "target_of (morphTargetTarget (updateEmotionMorphs delta ?s1)) ''jawOpen'' = 0.6"
    using a e unfolding updateEmotionMorphs_def
    by (simp add: Let_def lookup0_def target_setMorph)
qed

text \<open>
  Claim C3. \<open>setMorph\<close> merges with the maximum: on a channel of the rig the new target is
  the maximum of the old one and the contribution, and no channel is ever lowered. After
  the reset of a frame, contributions of 0.6 and 0.3 to one channel give exactly 0.6, in
  either order; on a rig with ARKit channels the viseme \<open>aa\<close> at intensity 0.8 puts
  \<open>jawOpen\<close> at 0.6 and an emotion that holds \<open>jawOpen\<close> at 0.3 leaves it at 0.6. Every
  source of a frame (lip sync, emotion, idle expressions, eye gaze, blinking) can only
  raise what the sources before it have set.
\<close>

theorem max_combine:
  "(in_dict s name \<longrightarrow>
      target_of (morphTargetTarget (setMorph name v s)) name =
        max (target_of (morphTargetTarget s) name) v) \<and>
   (\<forall>k. target_of (morphTargetTarget s) k \<le> target_of (morphTargetTarget (setMorph name v s)) k) \<and>
   (in_dict s name \<longrightarrow>
      target_of (morphTargetTarget (setMorph name 0.3 (setMorph name 0.6 (resetMorphTargets s))))
        name = 0.6 \<and>
      target_of (morphTargetTarget (setMorph name 0.6 (setMorph name 0.3 (resetMorphTargets s))))
        name = 0.6) \<and>
   (in_dict s ''jawOpen'' \<and> hasARKitMorphs s \<and>
    \<not> (hasOculusVisemes s \<and> in_dict s ''viseme_aa'') \<and>
    currentEmotion s = [(''jawOpen'', 0.3)] \<and> emotionTargetMap s = [(''jawOpen'', 0.3)] \<longrightarrow>
      target_of (morphTargetTarget
        (updateEmotionMorphs delta (applyViseme ''viseme_aa'' 0.8 (resetMorphTargets s))))
        ''jawOpen'' = 0.6) \<and>
   raises s (tickLipSync now s) \<and> raises s (updateEmotionMorphs delta s) \<and>
   raises s (microExpressions t s) \<and> raises s (updateEyeGaze delta fr s) \<and>
   raises s (updateBlink t delta fr s)"
proof -
  have a: "\<forall>k. target_of (morphTargetTarget s) k \<le>
      target_of (morphTargetTarget (setMorph name v s)) k"
    using raises_setMorph [of s name v] by (simp add: raises_def)
  show ?thesis
    using a emotion_over_lipsync(2) [of s delta]
    by (simp add: target_setMorph raises_tickLipSync raises_updateEmotionMorphs
        raises_microExpressions raises_updateEyeGaze raises_updateBlink)
qed

lemma arkit_rig_fields:
  "morphDict arkit_rig = Some [''jawOpen'', ''mouthFunnel'', ''eyeBlinkLeft'', ''eyeBlinkRight'']"
  "hasARKitMorphs arkit_rig" "\<not> hasOculusVisemes arkit_rig" "avatarLoaded arkit_rig"
  "currentEmotion arkit_rig = [(''jawOpen'', 0.3)]"
  "emotionTargetMap arkit_rig = [(''jawOpen'', 0.3)]"
  "\<not> isSpeaking arkit_rig" "lipSyncMode arkit_rig = Mode_none"
  "faceTrackBlink arkit_rig = None" "blinkAmount arkit_rig = 0" "blinkTarget arkit_rig = 0"
  by (simp_all add: arkit_rig_def avatar_loaded_def detectMorphCapabilities_def
      initial_client_def)

theorem max_combine_witness:
  "in_dict arkit_rig ''jawOpen'' \<and> hasARKitMorphs arkit_rig \<and>
   \<not> (hasOculusVisemes arkit_rig \<and> in_dict arkit_rig ''viseme_aa'') \<and>
   currentEmotion arkit_rig = [(''jawOpen'', 0.3)] \<and>
   emotionTargetMap arkit_rig = [(''jawOpen'', 0.3)] \<and>
   target_of (morphTargetTarget
     (updateEmotionMorphs 0.016 (applyViseme ''viseme_aa'' 0.8 (resetMorphTargets arkit_rig))))
     ''jawOpen'' = 0.6 \<and>
   target_of (morphTargetTarget
     (setMorph ''jawOpen'' 0.3 (setMorph ''jawOpen'' 0.6 (resetMorphTargets arkit_rig))))
     ''jawOpen'' = 0.6"
proof -
  have h: "in_dict arkit_rig ''jawOpen''" "hasARKitMorphs arkit_rig"
    "\<not> (hasOculusVisemes arkit_rig \<and> in_dict arkit_rig ''viseme_aa'')"
    "currentEmotion arkit_rig = [(''jawOpen'', 0.3)]"
    "emotionTargetMap arkit_rig = [(''jawOpen'', 0.3)]"
    by (simp_all add: in_dict_def arkit_rig_fields)
  from max_combine [where s = arkit_rig and name = "''jawOpen''" and delta = "0.016"] h
  show ?thesis
    by blast
qed

lemma lip_state_setMorph [simp]: "lip_state (setMorph n v s) = lip_state s"
  by (simp add: lip_state_def)

lemma lip_state_apply_mapping [simp]: "lip_state (apply_mapping m i s) = lip_state s"
  by (induction m i s rule: apply_mapping.induct) simp_all

lemma lip_state_applyViseme [simp]: "lip_state (applyViseme v i s) = lip_state s"
  by (simp add: applyViseme_def split: option.splits)

lemma lip_state_reset [simp]: "lip_state (resetMorphTargets s) = lip_state s"
  by (simp add: lip_state_def resetMorphTargets_def)

lemma lip_state_timeline_body [simp]: "lip_state (timeline_body ph rest elapsed s) = lip_state s"
  by (simp add: timeline_body_def Let_def split: list.splits)

lemma lip_state_timeline_loop [simp]: "lip_state (timeline_loop phs elapsed s) = lip_state s"
  by (induction phs elapsed s rule: timeline_loop.induct) simp_all

lemma lip_state_realtime_loop [simp]:
  "lip_state (fst (realtime_loop q elapsed t s)) = lip_state s"
  by (induction q elapsed t s rule: realtime_loop.induct)
     (simp_all add: Let_def split: list.splits)

lemma lip_state_emotion_approach [simp]:
  "lip_state (emotion_approach names rate s) = lip_state s"
proof (induction names rate s rule: emotion_approach.induct)
  case (1 rate s)
  then show ?case by simp
next
  case (2 name rest rate s)
  from "2.IH" [OF refl refl refl] show ?case by (simp add: Let_def lip_state_def)
qed

lemma lip_state_emotion_decay [simp]:
  "lip_state (emotion_decay names rate s) = lip_state s"
proof (induction names rate s rule: emotion_decay.induct)
  case (1 rate s)
  then show ?case by simp
next
  case (2 name rest rate s)
  show ?case
  proof (cases "name \<notin> set (map fst (emotionTargetMap s))")
    case False
    with "2.IH"(3) show ?thesis by simp
  next
    case True
    show ?thesis
    proof (cases "(case map_of (currentEmotion s) name of None \<Rightarrow> 0 | Some c \<Rightarrow> c) * (1 - rate)
        < 0.005")
      case small: True
      from "2.IH"(1) [OF True refl small] True small show ?thesis
        by (simp add: Let_def lip_state_def)
    next
      case big: False
      from "2.IH"(2) [OF True refl big] True big show ?thesis
        by (simp add: Let_def lip_state_def)
    qed
  qed
qed

lemma lip_state_updateEmotionMorphs [simp]:
  "lip_state (updateEmotionMorphs delta s) = lip_state s"
  by (simp add: updateEmotionMorphs_def Let_def)

lemma lip_state_microExpressions [simp]: "lip_state (microExpressions t s) = lip_state s"
  by (simp add: microExpressions_def Let_def)

lemma lip_state_updateEyeGaze [simp]: "lip_state (updateEyeGaze delta fr s) = lip_state s"
  by (simp add: updateEyeGaze_def Let_def lip_state_def split: option.splits)

lemma lip_state_updateBlink [simp]: "lip_state (updateBlink t delta fr s) = lip_state s"
  by (simp add: updateBlink_def Let_def lip_state_def split: option.splits)

lemma lip_state_talking [simp]: "lip_state (animateTalkingBody delta s) = lip_state s"
  by (simp add: animateTalkingBody_def lip_state_def)

lemma lip_state_blinkTimer [simp]: "lip_state (blinkTimerFired s) = lip_state s"
  by (simp add: blinkTimerFired_def lip_state_def)

lemma lip_state_onFaceResults [simp]: "lip_state (onFaceResults results s) = lip_state s"
  by (simp add: onFaceResults_def Let_def lip_state_def split: list.splits)


lemma lip_state_queue [simp]: "lip_state (s\<lparr>wordVisemeQueue := q\<rparr>) = lip_state s"
  by (simp add: lip_state_def)

lemma lip_state_elapsed [simp]: "lip_state (s\<lparr>elapsedTime := x\<rparr>) = lip_state s"
  by (simp add: lip_state_def)

lemma lip_state_stop: "lip_state (stopLipSync s) = (False, Mode_none, currentPhonemes s, lipSyncStartTime s)"
  by (simp add: lip_state_def stopLipSync_def)

lemma lip_state_realtime_tick [simp]: "lip_state (realtime_tick elapsed s) = lip_state s"
  by (simp add: realtime_tick_def Let_def)

lemma lip_state_fallback_tick [simp]: "lip_state (fallback_tick elapsed s) = lip_state s"
  by (simp add: fallback_tick_def Let_def split: option.splits)

lemma timeline_tick_cases:
  "lip_state (timeline_tick elapsed s) = lip_state s \<or> timeline_tick elapsed s = stopLipSync s"
  by (simp add: timeline_tick_def split: option.splits)

lemma tick_cases:
  "lip_state (tickLipSync now s) = lip_state s \<or> tickLipSync now s = stopLipSync s"
  using timeline_tick_cases [of "(now - lipSyncStartTime s) / 1000" s]
  by (cases "lipSyncMode s") (auto simp: tickLipSync_def)

lemma tick_timeline_running:
  assumes "lip_state s = (True, Mode_timeline, Some pd, t0)"
    and "totalDuration pd = 0 \<or> (now - t0) / 1000 \<le> totalDuration pd + 0.15"
  shows "lip_state (tickLipSync now s) = lip_state s"
proof -
  from assms(1) have "isSpeaking s" "lipSyncMode s = Mode_timeline"
    "currentPhonemes s = Some pd" "lipSyncStartTime s = t0"
    by (simp_all add: lip_state_def)
  with assms(2) show ?thesis by (auto simp: tickLipSync_def timeline_tick_def)
qed

lemma tick_timeline_stop:
  assumes "lip_state s = (True, Mode_timeline, Some pd, t0)"
    and "totalDuration pd \<noteq> 0" and "(now - t0) / 1000 > totalDuration pd + 0.15"
  shows "tickLipSync now s = stopLipSync s"
proof -
  from assms(1) have "isSpeaking s" "lipSyncMode s = Mode_timeline"
    "currentPhonemes s = Some pd" "lipSyncStartTime s = t0"
    by (simp_all add: lip_state_def)
  with assms(2,3) show ?thesis by (simp add: tickLipSync_def timeline_tick_def)
qed

lemma lip_state_animate:
  "lip_state (animate fr s) =
     (if avatarLoaded s
      then lip_state (tickLipSync (f_now fr)
             (resetMorphTargets (s\<lparr>elapsedTime := elapsedTime s + frame_delta fr\<rparr>)))
      else lip_state s)"
  by (simp add: animate_def Let_def)

lemma animate_mode:
  "lip_state (animate fr s) = lip_state s \<or>
   lip_state (animate fr s) = (False, Mode_none, currentPhonemes s, lipSyncStartTime s)"
proof (cases "avatarLoaded s")
  case False
  then show ?thesis by (simp add: lip_state_animate)
next
  case True
  let ?s1 = "resetMorphTargets (s\<lparr>elapsedTime := elapsedTime s + frame_delta fr\<rparr>)"
  have s1: "lip_state ?s1 = lip_state s" by simp
  then have f: "currentPhonemes ?s1 = currentPhonemes s" "lipSyncStartTime ?s1 = lipSyncStartTime s"
    by (simp_all add: lip_state_def)
  from tick_cases [of "f_now fr" ?s1] show ?thesis
  proof
    assume "lip_state (tickLipSync (f_now fr) ?s1) = lip_state ?s1"
    with True s1 show ?thesis by (simp add: lip_state_animate)
  next
    assume "tickLipSync (f_now fr) ?s1 = stopLipSync ?s1"
    then have "lip_state (tickLipSync (f_now fr) ?s1) =
        (False, Mode_none, currentPhonemes s, lipSyncStartTime s)"
      using f by (simp add: lip_state_stop)
    with True show ?thesis by (simp add: lip_state_animate)
  qed
qed

lemma animate_timeline_running:
  assumes "lip_state s = (True, Mode_timeline, Some pd, t0)"
    and "totalDuration pd = 0 \<or> (f_now fr - t0) / 1000 \<le> totalDuration pd + 0.15"
  shows "lip_state (animate fr s) = lip_state s"
proof (cases "avatarLoaded s")
  case False
  then show ?thesis by (simp add: lip_state_animate)
next
  case True
  let ?s1 = "resetMorphTargets (s\<lparr>elapsedTime := elapsedTime s + frame_delta fr\<rparr>)"
  have s1: "lip_state ?s1 = (True, Mode_timeline, Some pd, t0)" using assms(1) by simp
  from tick_timeline_running [OF s1 assms(2)] True s1 assms(1) show ?thesis
    by (simp add: lip_state_animate)
qed


lemma pauseDuration_pos: "0 < pauseDuration p"
  by (simp add: pauseDuration_def pause_consts)

lemma char_loop_clock: "snd st \<le> snd (char_loop w e i st)"
proof (induction w e i st rule: char_loop.induct)
  case (1 word wordEmphasis i st)
  show ?case
  proof (cases "i < length word")
    case True
    have "snd st \<le> snd (fst (char_step word wordEmphasis i st))"
      by (simp add: char_step_def BASE_CHAR_DURATION_def split: option.splits)
    also have "\<dots> \<le> snd (char_loop word wordEmphasis
        (snd (char_step word wordEmphasis i st) + 1) (fst (char_step word wordEmphasis i st)))"
      by (rule "1.IH" [OF True])
    finally show ?thesis using True by (subst char_loop.simps) simp
  next
    case False
    then show ?thesis by (subst char_loop.simps) simp
  qed
qed

lemma clock_pos_push: "0 \<le> snd st \<Longrightarrow> clock_pos (push_sil (pauseDuration p) st)"
  using pauseDuration_pos [of p] by (simp add: clock_pos_def push_sil_def)

lemma clock_pos_word_step: "clock_pos st \<Longrightarrow> clock_pos (word_step wi w st)"
proof (cases "filter keep_word w = []")
  case True
  assume a: "clock_pos st"
  then have "0 \<le> snd st" by (simp add: clock_pos_def)
  then have "clock_pos (push_sil (pauseDuration (punct_of w)) st)" by (rule clock_pos_push)
  with a True show ?thesis by (simp add: word_step_def Let_def)
next
  case False
  assume a: "clock_pos st"
  have ge: "0 \<le> snd (char_loop w' e 0 st)" for w' e
  proof -
    have "0 \<le> snd st" using a by (simp add: clock_pos_def)
    also have "snd st \<le> snd (char_loop w' e 0 st)" by (rule char_loop_clock)
    finally show ?thesis .
  qed
  have p: "clock_pos (push_sil (pauseDuration p) (char_loop w' e 0 st))" for p w' e
    using ge by (rule clock_pos_push)
  have g: "clock_pos (push_sil WORD_GAP (char_loop w' e 0 st))" for w' e
    using p [of "[]" w' e] by (simp add: pauseDuration_def)
  from False show ?thesis by (simp add: word_step_def Let_def p g)
qed

lemma clock_pos_words_loop: "clock_pos st \<Longrightarrow> clock_pos (words_loop wi ws st)"
  by (induction ws arbitrary: wi st) (simp_all add: clock_pos_word_step)

lemma generated_duration_pos:
  "phonemes (generatePhonemeData text) \<noteq> [] \<Longrightarrow> 0 < totalDuration (generatePhonemeData text)"
proof -
  have "clock_pos ([], 0)" by (simp add: clock_pos_def)
  then have "clock_pos (words_loop 0 (words_of text) ([], 0))" by (rule clock_pos_words_loop)
  then show "phonemes (generatePhonemeData text) \<noteq> [] \<Longrightarrow>
      0 < totalDuration (generatePhonemeData text)"
    by (simp add: generatePhonemeData_def Let_def clock_pos_def)
qed

lemma stop_idempotent: "stopLipSync (stopLipSync s) = stopLipSync s"
  by (simp add: stopLipSync_def)

lemma stop_silences_lipsync:
  "tickLipSync now (stopLipSync s) = stopLipSync s"
  "target_of (morphTargetTarget (tickLipSync now (resetMorphTargets (stopLipSync s)))) k = 0"
  by (simp_all add: tickLipSync_def stopLipSync_def resetMorphTargets_def target_of_def
      split: option.splits)

lemma a_timeline:
  "phonemes (generatePhonemeData ''a'') =
     [\<lparr>viseme = ''viseme_aa'', time = 0, duration = 0.072, intensity = 0.825\<rparr>,
      \<lparr>viseme = ''viseme_sil'', time = 0.06, duration = 0.07, intensity = 0\<rparr>]"
  "totalDuration (generatePhonemeData ''a'') = 0.13"
  by code_simp+

lemma timeline_tick_mid:
  assumes "isSpeaking s" and "lipSyncMode s = Mode_timeline" and "currentPhonemes s = Some pd"
    and "phonemes pd =
     [\<lparr>viseme = ''viseme_aa'', time = 0, duration = 0.072, intensity = 0.825\<rparr>,
      \<lparr>viseme = ''viseme_sil'', time = 0.06, duration = 0.07, intensity = 0\<rparr>]"
    and "totalDuration pd = 0.13" and "lipSyncStartTime s = 0"
    and "hasOculusVisemes s" and "morphDict s = Some keys" and "''viseme_aa'' \<in> set keys"
    and "\<And>k. target_of (morphTargetTarget s) k = 0"
  shows "target_of (morphTargetTarget (tickLipSync 36 s)) ''viseme_aa'' = 0.825"
  using assms
  by (simp add: tickLipSync_def timeline_tick_def timeline_body_def Let_def applyViseme_def
      target_setMorph in_dict_def js_or_def)

lemma still_after_stop:
  assumes "lip_state s = (False, Mode_none, cp, t0)"
  shows "lipSyncMode (animate fr s) = Mode_none \<and> \<not> isSpeaking (animate fr s)"
  using animate_mode [of fr s] assms by (auto simp: lip_state_def)

text \<open>
  Claim C7. In the timeline mode, with a sequence whose \<open>totalDuration\<close> is not zero (as
  it is for every sequence of the generator that has an event), the tick after the
  elapsed time has passed \<open>totalDuration + 0.15\<close> s is \<open>stopLipSync\<close>: the controller is
  idle and no longer speaking, that tick writes nothing into the accumulator, every
  later tick leaves the controller as it is, and after the reset of a later frame the
  tick leaves every channel at 0, so that no shape of the timeline is held. Below that
  time the tick leaves the controller in the timeline mode. The frame loop of a loaded
  avatar stops the controller the same way, and it stays idle in the frames after.
  The numbers of the model are reals; at the threshold itself, where the rounding of
  the sum decides the comparison of the program, the running case is not stated.
\<close>

theorem timeline_auto_stop:
  assumes "isSpeaking s" and "lipSyncMode s = Mode_timeline" and "currentPhonemes s = Some pd"
    and "totalDuration pd \<noteq> 0 \<or> (\<exists>text. pd = generatePhonemeData text \<and> phonemes pd \<noteq> [])"
  shows "(totalDuration pd + 0.15 < (now - lipSyncStartTime s) / 1000 \<longrightarrow>
           tickLipSync now s = stopLipSync s \<and>
           lipSyncMode (tickLipSync now s) = Mode_none \<and> \<not> isSpeaking (tickLipSync now s) \<and>
           morphTargetTarget (tickLipSync now s) = morphTargetTarget s \<and>
           (\<forall>later. tickLipSync later (tickLipSync now s) = tickLipSync now s) \<and>
           (\<forall>later k. target_of (morphTargetTarget
              (tickLipSync later (resetMorphTargets (tickLipSync now s)))) k = 0)) \<and>
         ((now - lipSyncStartTime s) / 1000 < totalDuration pd + 0.15 \<longrightarrow>
           lipSyncMode (tickLipSync now s) = Mode_timeline \<and> isSpeaking (tickLipSync now s)) \<and>
         (avatarLoaded s \<and> totalDuration pd + 0.15 < (f_now fr - lipSyncStartTime s) / 1000 \<longrightarrow>
           lipSyncMode (animate fr s) = Mode_none \<and> \<not> isSpeaking (animate fr s) \<and>
           (\<forall>next. lipSyncMode (animate next (animate fr s)) = Mode_none \<and>
              \<not> isSpeaking (animate next (animate fr s))))"
proof -
  have nz: "totalDuration pd \<noteq> 0"
    using assms(4) generated_duration_pos by fastforce
  have ls: "lip_state s = (True, Mode_timeline, Some pd, lipSyncStartTime s)"
    using assms(1-3) by (simp add: lip_state_def)
  have a: "tickLipSync now s = stopLipSync s \<and>
           lipSyncMode (tickLipSync now s) = Mode_none \<and> \<not> isSpeaking (tickLipSync now s) \<and>
           morphTargetTarget (tickLipSync now s) = morphTargetTarget s \<and>
           (\<forall>later. tickLipSync later (tickLipSync now s) = tickLipSync now s) \<and>
           (\<forall>later k. target_of (morphTargetTarget
              (tickLipSync later (resetMorphTargets (tickLipSync now s)))) k = 0)"
    if "totalDuration pd + 0.15 < (now - lipSyncStartTime s) / 1000"
  proof -
    have e: "tickLipSync now s = stopLipSync s" by (rule tick_timeline_stop [OF ls nz that])
    show ?thesis unfolding e by (simp add: stop_silences_lipsync) (simp add: stopLipSync_def)
  qed
  have b: "lipSyncMode (tickLipSync now s) = Mode_timeline \<and> isSpeaking (tickLipSync now s)"
    if "(now - lipSyncStartTime s) / 1000 < totalDuration pd + 0.15"
    using tick_timeline_running [OF ls, of now] that ls by (simp add: lip_state_def)
  have c: "lipSyncMode (animate fr s) = Mode_none \<and> \<not> isSpeaking (animate fr s) \<and>
           (\<forall>next. lipSyncMode (animate next (animate fr s)) = Mode_none \<and>
              \<not> isSpeaking (animate next (animate fr s)))"
    if l: "avatarLoaded s"
      and t: "totalDuration pd + 0.15 < (f_now fr - lipSyncStartTime s) / 1000"
  proof -
    let ?s1 = "resetMorphTargets (s\<lparr>elapsedTime := elapsedTime s + frame_delta fr\<rparr>)"
    have "lip_state ?s1 = (True, Mode_timeline, Some pd, lipSyncStartTime s)" using ls by simp
    from tick_timeline_stop [OF this nz t]
    have "lip_state (animate fr s) = lip_state (stopLipSync ?s1)"
      using l by (simp add: lip_state_animate)
    then have st: "lip_state (animate fr s) =
        (False, Mode_none, currentPhonemes ?s1, lipSyncStartTime ?s1)"
      by (simp add: lip_state_stop)
    then have "lipSyncMode (animate fr s) = Mode_none \<and> \<not> isSpeaking (animate fr s)"
      by (simp add: lip_state_def)
    with still_after_stop [OF st] show ?thesis by blast
  qed
  from a b c show ?thesis by blast
qed

lemma timeline_rig_fields:
  "isSpeaking (startLipSyncFromTimeline (Some pd) 0 oculus_rig)"
  "lipSyncMode (startLipSyncFromTimeline (Some pd) 0 oculus_rig) = Mode_timeline"
  "currentPhonemes (startLipSyncFromTimeline (Some pd) 0 oculus_rig) = Some pd"
  "lipSyncStartTime (startLipSyncFromTimeline (Some pd) 0 oculus_rig) = 0"
  "hasOculusVisemes (startLipSyncFromTimeline (Some pd) 0 oculus_rig)"
  "morphDict (startLipSyncFromTimeline (Some pd) 0 oculus_rig) =
     Some [''viseme_sil'', ''viseme_aa'', ''viseme_E'', ''eyeBlinkLeft'', ''eyeBlinkRight'']"
  by (simp_all add: startLipSyncFromTimeline_def stopLipSync_def oculus_rig_def
      avatar_loaded_def detectMorphCapabilities_def)

theorem timeline_auto_stop_witness:
  "isSpeaking (startLipSyncFromTimeline (Some (generatePhonemeData ''a'')) 0 oculus_rig) \<and>
   lipSyncMode (startLipSyncFromTimeline (Some (generatePhonemeData ''a'')) 0 oculus_rig)
     = Mode_timeline \<and>
   currentPhonemes (startLipSyncFromTimeline (Some (generatePhonemeData ''a'')) 0 oculus_rig)
     = Some (generatePhonemeData ''a'') \<and>
   totalDuration (generatePhonemeData ''a'') = 0.13 \<and>
   (36 - lipSyncStartTime
      (startLipSyncFromTimeline (Some (generatePhonemeData ''a'')) 0 oculus_rig)) / 1000
     < totalDuration (generatePhonemeData ''a'') + 0.15 \<and>
   lipSyncMode (tickLipSync 36
      (startLipSyncFromTimeline (Some (generatePhonemeData ''a'')) 0 oculus_rig))
     = Mode_timeline \<and>
   target_of (morphTargetTarget (tickLipSync 36 (resetMorphTargets
      (startLipSyncFromTimeline (Some (generatePhonemeData ''a'')) 0 oculus_rig))))
      ''viseme_aa'' = 0.825 \<and>
   totalDuration (generatePhonemeData ''a'') + 0.15 < (1000 - lipSyncStartTime
      (startLipSyncFromTimeline (Some (generatePhonemeData ''a'')) 0 oculus_rig)) / 1000 \<and>
   tickLipSync 1000 (startLipSyncFromTimeline (Some (generatePhonemeData ''a'')) 0 oculus_rig)
     = stopLipSync (startLipSyncFromTimeline (Some (generatePhonemeData ''a'')) 0 oculus_rig) \<and>
   lipSyncMode (tickLipSync 1000
      (startLipSyncFromTimeline (Some (generatePhonemeData ''a'')) 0 oculus_rig)) = Mode_none \<and>
   target_of (morphTargetTarget (tickLipSync 1016 (resetMorphTargets (tickLipSync 1000
      (startLipSyncFromTimeline (Some (generatePhonemeData ''a'')) 0 oculus_rig)))))
      ''viseme_aa'' = 0"
proof -
  let ?pd = "generatePhonemeData ''a''"
  let ?s = "startLipSyncFromTimeline (Some ?pd) 0 oculus_rig"
  note h = timeline_rig_fields [of ?pd]
  have d: "totalDuration ?pd \<noteq> 0
      \<or> (\<exists>text. ?pd = generatePhonemeData text \<and> phonemes ?pd \<noteq> [])"
    by (simp add: a_timeline)
  have t: "(36 - lipSyncStartTime ?s) / 1000 < totalDuration ?pd + 0.15"
    "totalDuration ?pd + 0.15 < (1000 - lipSyncStartTime ?s) / 1000"
    by (simp_all add: a_timeline h)
  have r: "isSpeaking (resetMorphTargets ?s)" "lipSyncMode (resetMorphTargets ?s) = Mode_timeline"
    "currentPhonemes (resetMorphTargets ?s) = Some ?pd" "lipSyncStartTime (resetMorphTargets ?s) = 0"
    "hasOculusVisemes (resetMorphTargets ?s)"
    "morphDict (resetMorphTargets ?s) =
       Some [''viseme_sil'', ''viseme_aa'', ''viseme_E'', ''eyeBlinkLeft'', ''eyeBlinkRight'']"
    using h by (simp_all add: resetMorphTargets_def)
  have m: "target_of (morphTargetTarget (tickLipSync 36 (resetMorphTargets ?s))) ''viseme_aa''
      = 0.825"
    by (rule timeline_tick_mid [OF r(1-3) a_timeline(1) a_timeline(2) r(4-6)]) simp_all
  from timeline_auto_stop [OF h(1) h(2) h(3) d, of 36]
    timeline_auto_stop [OF h(1) h(2) h(3) d, of 1000] h(1-3) t m a_timeline(2)
  show ?thesis by blast
qed

lemma hi_duration: "totalDuration (generatePhonemeData ''Hi'') = 0.19"
  "phonemes (generatePhonemeData ''Hi'') \<noteq> []"
  by code_simp+

lemma lip_state_startTimeline:
  "lip_state (startLipSyncFromTimeline pd now s) = (True, Mode_timeline, pd, now)"
  by (simp add: lip_state_def startLipSyncFromTimeline_def stopLipSync_def)

lemma mode_of_lip_state: "lipSyncMode s = fst (snd (lip_state s))"
  by (simp add: lip_state_def)

lemma tl_inv_handle: "tl_inv cu \<Longrightarrow> tl_inv (handle e cu)"
proof (cases e)
  case (Frame fr)
  assume "tl_inv cu"
  then show ?thesis
    using Frame animate_mode [of fr "fst cu"]
    by (auto simp: tl_inv_def mode_of_lip_state)
qed (auto simp: tl_inv_def onstart_def onboundary_def graceTimerFired_def onend_def
      onerror_def Let_def mode_of_lip_state lip_state_startTimeline lip_state_stop)

lemma tl_inv_run: "tl_inv cu \<Longrightarrow> tl_inv (run evs cu)"
  by (induction evs arbitrary: cu) (simp_all add: tl_inv_handle)

lemma tl_running_handle:
  "tl_running t0 d cu \<Longrightarrow> keeps_timeline t0 d e \<Longrightarrow> tl_running t0 d (handle e cu)"
proof (cases e)
  case (Frame fr)
  assume "tl_running t0 d cu" "keeps_timeline t0 d e"
  then show ?thesis
    using Frame animate_timeline_running [of "fst cu" d t0 fr]
    by (simp add: tl_running_def)
qed (auto simp: tl_running_def onboundary_def graceTimerFired_def has_timeline_def Let_def)

lemma tl_running_run:
  "tl_running t0 d cu \<Longrightarrow> \<forall>e\<in>set evs. keeps_timeline t0 d e \<Longrightarrow> tl_running t0 d (run evs cu)"
  by (induction evs arbitrary: cu) (simp_all add: tl_running_handle)

text \<open>
  Claim C2. When playback starts for an utterance with a sequence that has an event, the
  controller is in the timeline mode with that sequence at once. Whatever events follow,
  it is never in the realtime mode nor in the fallback mode, and as long as the speech
  has not ended, nobody has stopped it and no frame is later than 0.15 s after the end of
  the timeline, it stays in the timeline mode with that sequence: boundary events and the
  grace timer change nothing.
\<close>

theorem timeline_preferred:
  assumes "phonemes d \<noteq> []"
  shows "lipSyncMode (fst (onstart t0 (s, speak text (Some d)))) = Mode_timeline \<and>
         currentPhonemes (fst (onstart t0 (s, speak text (Some d)))) = Some d \<and>
         isSpeaking (fst (onstart t0 (s, speak text (Some d)))) \<and>
         lipSyncMode (fst (run evs (onstart t0 (s, speak text (Some d))))) \<noteq> Mode_realtime \<and>
         lipSyncMode (fst (run evs (onstart t0 (s, speak text (Some d))))) \<noteq> Mode_fallback \<and>
         ((\<forall>e\<in>set evs. keeps_timeline t0 d e) \<longrightarrow>
            lipSyncMode (fst (run evs (onstart t0 (s, speak text (Some d))))) = Mode_timeline \<and>
            currentPhonemes (fst (run evs (onstart t0 (s, speak text (Some d))))) = Some d \<and>
            isSpeaking (fst (run evs (onstart t0 (s, speak text (Some d))))))"
proof -
  let ?cu = "onstart t0 (s, speak text (Some d))"
  have st: "?cu = (startLipSyncFromTimeline (Some d) t0 s,
      (speak text (Some d))\<lparr>speechStarted := True, usedBoundary := True\<rparr>)"
    using assms by (simp add: onstart_def has_timeline_def speak_def Let_def)
  have ls: "lip_state (fst ?cu) = (True, Mode_timeline, Some d, t0)"
    by (simp add: st lip_state_startTimeline)
  have u: "u_phonemeData (snd ?cu) = Some d" "usedBoundary (snd ?cu)"
    unfolding st by (simp_all add: speak_def)
  have run0: "tl_running t0 d ?cu"
    using assms ls u by (simp add: tl_running_def)
  have inv0: "tl_inv ?cu"
    using assms ls u by (simp add: tl_inv_def mode_of_lip_state has_timeline_def)
  from tl_inv_run [OF inv0, of evs]
  have a: "lipSyncMode (fst (run evs ?cu)) \<noteq> Mode_realtime \<and>
      lipSyncMode (fst (run evs ?cu)) \<noteq> Mode_fallback"
    by (auto simp: tl_inv_def)
  have b: "lipSyncMode (fst (run evs ?cu)) = Mode_timeline \<and>
      currentPhonemes (fst (run evs ?cu)) = Some d \<and> isSpeaking (fst (run evs ?cu))"
    if "\<forall>e\<in>set evs. keeps_timeline t0 d e"
    using tl_running_run [OF run0 that] by (simp add: tl_running_def lip_state_def)
  from ls a b show ?thesis by (simp add: lip_state_def)
qed

theorem timeline_preferred_witness:
  "phonemes (generatePhonemeData ''Hi'') \<noteq> [] \<and>
   keeps_timeline 0 (generatePhonemeData ''Hi'') (Frame (frame_at 16)) \<and>
   keeps_timeline 0 (generatePhonemeData ''Hi'') (Frame (frame_at 200)) \<and>
   keeps_timeline 0 (generatePhonemeData ''Hi'') (GraceTimer 400) \<and>
   lipSyncMode (fst (run [Frame (frame_at 16), Frame (frame_at 200), GraceTimer 400]
     (onstart 0 (oculus_rig, speak ''Hi'' (Some (generatePhonemeData ''Hi'')))))) = Mode_timeline \<and>
   currentPhonemes (fst (run [Frame (frame_at 16), Frame (frame_at 200), GraceTimer 400]
     (onstart 0 (oculus_rig, speak ''Hi'' (Some (generatePhonemeData ''Hi''))))))
     = Some (generatePhonemeData ''Hi'')"
proof -
  have h: "phonemes (generatePhonemeData ''Hi'') \<noteq> []" by (rule hi_duration(2))
  have k: "keeps_timeline 0 (generatePhonemeData ''Hi'') (Frame (frame_at 16))"
    "keeps_timeline 0 (generatePhonemeData ''Hi'') (Frame (frame_at 200))"
    "keeps_timeline 0 (generatePhonemeData ''Hi'') (GraceTimer 400)"
    by (simp_all add: frame_at_def hi_duration)
  then have ks: "\<forall>e\<in>set [Frame (frame_at 16), Frame (frame_at 200), GraceTimer 400].
      keeps_timeline 0 (generatePhonemeData ''Hi'') e"
    by simp
  from timeline_preferred [OF h, of 0 oculus_rig "''Hi''"
      "[Frame (frame_at 16), Frame (frame_at 200), GraceTimer 400]"] h k ks
  show ?thesis by blast
qed

lemma no_letters: "phonemes (generatePhonemeData ''7'') = []"
  by code_simp

lemma animate_raises_tick:
  assumes "avatarLoaded s"
  shows "raises (tickLipSync (f_now fr)
           (resetMorphTargets (s\<lparr>elapsedTime := elapsedTime s + frame_delta fr\<rparr>)))
         (animate fr s)"
proof -
  let ?d = "frame_delta fr"
  let ?s2 = "tickLipSync (f_now fr) (resetMorphTargets (s\<lparr>elapsedTime := elapsedTime s + ?d\<rparr>))"
  let ?s3 = "updateEmotionMorphs ?d ?s2"
  let ?s4 = "if \<not> isSpeaking ?s3 then microExpressions (elapsedTime ?s3) ?s3 else ?s3"
  let ?s5 = "updateEyeGaze ?d fr ?s4"
  let ?s6 = "updateBlink (elapsedTime ?s5) ?d fr ?s5"
  have a: "raises ?s2 ?s3" by (rule raises_updateEmotionMorphs)
  have b: "raises ?s3 ?s4" by (simp add: raises_microExpressions)
  have c: "raises ?s4 ?s5" by (rule raises_updateEyeGaze)
  have d: "raises ?s5 ?s6" by (rule raises_updateBlink)
  have e: "raises ?s2 ?s6" by (rule raises_trans [OF raises_trans [OF raises_trans [OF a b] c] d])
  have "morphTargetTarget (animate fr s) = morphTargetTarget ?s6"
    using assms by (simp add: animate_def Let_def animateTalkingBody_def)
  with e show ?thesis by (simp add: raises_def)
qed

lemma fallback_tick_value:
  assumes "hasOculusVisemes s" and "in_dict s ''viseme_aa''" and "\<not> hasARKitMorphs s"
  shows "fallback_tick (1 / 10) s = setMorph ''viseme_aa'' 0.9 s"
proof -
  from assms(2) obtain keys where k: "morphDict s = Some keys" "''viseme_aa'' \<in> set keys"
    by (auto simp: in_dict_def split: option.splits)
  show ?thesis
    using assms(1,3) k
    by (simp add: fallback_tick_def Let_def fallback_viseme_def applyViseme_def)
qed

lemma oculus_rig_fields:
  "morphDict oculus_rig =
     Some [''viseme_sil'', ''viseme_aa'', ''viseme_E'', ''eyeBlinkLeft'', ''eyeBlinkRight'']"
  "hasOculusVisemes oculus_rig" "\<not> hasARKitMorphs oculus_rig" "avatarLoaded oculus_rig"
  "currentEmotion oculus_rig = []" "emotionTargetMap oculus_rig = []"
  "\<not> isSpeaking oculus_rig" "lipSyncMode oculus_rig = Mode_none"
  "faceTrackBlink oculus_rig = None" "blinkAmount oculus_rig = 0" "blinkTarget oculus_rig = 0"
  by (simp_all add: oculus_rig_def avatar_loaded_def detectMorphCapabilities_def
      initial_client_def)

lemma stopped_run:
  "run [OnStart 0, OnEnd, Stop] (s, speak ''7'' (Some (generatePhonemeData ''7''))) =
     (stopLipSync s, (speak ''7'' (Some (generatePhonemeData ''7'')))
        \<lparr>speechStarted := True, graceTimers := 1\<rparr>)"
  by (simp add: onstart_def onend_def has_timeline_def no_letters speak_def Let_def
      stop_idempotent)

lemma restarted_run:
  "fst (run [OnStart 0, OnEnd, Stop, GraceTimer 400]
      (s, speak ''7'' (Some (generatePhonemeData ''7'')))) =
   startLipSyncFallback 400 (stopLipSync s)"
proof -
  have "run [OnStart 0, OnEnd, Stop, GraceTimer 400]
      (s, speak ''7'' (Some (generatePhonemeData ''7''))) =
    handle (GraceTimer 400) (run [OnStart 0, OnEnd, Stop]
      (s, speak ''7'' (Some (generatePhonemeData ''7''))))"
    by simp
  then show ?thesis
    unfolding stopped_run
    by (simp add: graceTimerFired_def has_timeline_def no_letters speak_def Let_def)
qed

lemma raisesD:
  "raises s s' \<Longrightarrow> target_of (morphTargetTarget s) k \<le> target_of (morphTargetTarget s') k"
  by (simp add: raises_def)

lemma fallback_frame:
  "0.9 \<le> target_of (morphTargetTarget
      (animate (frame_at 500) (startLipSyncFallback 400 (stopLipSync oculus_rig))))
      ''viseme_aa''"
proof -
  let ?S = "startLipSyncFallback 400 (stopLipSync oculus_rig)"
  let ?X = "resetMorphTargets (?S\<lparr>elapsedTime :=
      elapsedTime ?S + frame_delta (frame_at 500)\<rparr>)"
  have f: "avatarLoaded ?S" "isSpeaking ?X" "lipSyncMode ?X = Mode_fallback"
    "lipSyncStartTime ?X = 400" "hasOculusVisemes ?X" "\<not> hasARKitMorphs ?X"
    "in_dict ?X ''viseme_aa''"
    by (simp_all add: startLipSyncFallback_def stopLipSync_def resetMorphTargets_def
        oculus_rig_fields in_dict_def)
  have "tickLipSync (f_now (frame_at 500)) ?X = fallback_tick (1 / 10) ?X"
    using f(2-4) by (simp add: tickLipSync_def frame_at_def)
  also have "\<dots> = setMorph ''viseme_aa'' 0.9 ?X"
    using f(5,7,6) by (rule fallback_tick_value)
  finally have v: "target_of (morphTargetTarget (tickLipSync (f_now (frame_at 500)) ?X))
      ''viseme_aa'' = 0.9"
    using f(7) by (simp add: target_setMorph)
  have "raises (tickLipSync (f_now (frame_at 500)) ?X) (animate (frame_at 500) ?S)"
    using f(1) by (rule animate_raises_tick)
  from raisesD [OF this, of "''viseme_aa''"] show ?thesis unfolding v .
qed

text \<open>
  Claim C9, on the input where the code departs from it. For a text without letters the
  timeline is empty, so \<open>onstart\<close> sets the grace timer. The speech ends and \<open>stopLipSync\<close>
  runs twice: the controller is idle, and the timer is still pending. When the timer
  fires, the controller starts the fallback mode and speaks again, and the next frame on
  a rig with Oculus visemes drives \<open>viseme_aa\<close> to at least 0.9.
\<close>

theorem grace_timer_survives_stop:
  "graceTimers (snd (run [OnStart 0, OnEnd, Stop]
      (s, speak ''7'' (Some (generatePhonemeData ''7''))))) = 1 \<and>
   lipSyncMode (fst (run [OnStart 0, OnEnd, Stop]
      (s, speak ''7'' (Some (generatePhonemeData ''7''))))) = Mode_none \<and>
   lipSyncMode (fst (run [OnStart 0, OnEnd, Stop, GraceTimer 400]
      (s, speak ''7'' (Some (generatePhonemeData ''7''))))) = Mode_fallback \<and>
   isSpeaking (fst (run [OnStart 0, OnEnd, Stop, GraceTimer 400]
      (s, speak ''7'' (Some (generatePhonemeData ''7''))))) \<and>
   0.9 \<le> target_of (morphTargetTarget
     (animate (frame_at 500) (fst (run [OnStart 0, OnEnd, Stop, GraceTimer 400]
        (oculus_rig, speak ''7'' (Some (generatePhonemeData ''7''))))))) ''viseme_aa''"
proof -
  have a: "graceTimers (snd (run [OnStart 0, OnEnd, Stop]
      (s, speak ''7'' (Some (generatePhonemeData ''7''))))) = 1"
    "lipSyncMode (fst (run [OnStart 0, OnEnd, Stop]
      (s, speak ''7'' (Some (generatePhonemeData ''7''))))) = Mode_none"
    unfolding stopped_run by (simp_all add: stopLipSync_def)
  have b: "lipSyncMode (fst (run [OnStart 0, OnEnd, Stop, GraceTimer 400]
      (s, speak ''7'' (Some (generatePhonemeData ''7''))))) = Mode_fallback"
    "isSpeaking (fst (run [OnStart 0, OnEnd, Stop, GraceTimer 400]
      (s, speak ''7'' (Some (generatePhonemeData ''7'')))))"
    unfolding restarted_run by (simp_all add: startLipSyncFallback_def)
  have c: "0.9 \<le> target_of (morphTargetTarget
     (animate (frame_at 500) (fst (run [OnStart 0, OnEnd, Stop, GraceTimer 400]
        (oculus_rig, speak ''7'' (Some (generatePhonemeData ''7''))))))) ''viseme_aa''"
    unfolding restarted_run by (rule fallback_frame)
  from a b c show ?thesis by blast
qed

lemma onFaceResults_speaking:
  "isSpeaking s \<Longrightarrow> morphTargetTarget (onFaceResults results s) = morphTargetTarget s"
  by (simp add: onFaceResults_def Let_def split: list.splits)

lemma isSpeaking_of_lip_state: "isSpeaking s = fst (lip_state s)"
  by (simp add: lip_state_def)

lemma animate_speaking:
  assumes "avatarLoaded s"
    and "isSpeaking (tickLipSync (f_now fr)
           (resetMorphTargets (s\<lparr>elapsedTime := elapsedTime s + frame_delta fr\<rparr>)))"
  shows "morphTargetTarget (animate fr s) =
     (let delta = frame_delta fr;
          s2 = tickLipSync (f_now fr)
                 (resetMorphTargets (s\<lparr>elapsedTime := elapsedTime s + delta\<rparr>));
          s5 = updateEyeGaze delta fr (updateEmotionMorphs delta s2)
      in morphTargetTarget (updateBlink (elapsedTime s5) delta fr s5))"
proof -
  let ?d = "frame_delta fr"
  let ?s2 = "tickLipSync (f_now fr) (resetMorphTargets (s\<lparr>elapsedTime := elapsedTime s + ?d\<rparr>))"
  have "isSpeaking (updateEmotionMorphs ?d ?s2)"
    using assms(2) by (simp add: isSpeaking_of_lip_state)
  then show ?thesis
    using assms(1) by (simp add: animate_def Let_def animateTalkingBody_def)
qed

lemma quiet_frame_blink:
  assumes "avatarLoaded s" and "isSpeaking s" and "lipSyncMode s = Mode_realtime"
    and "wordVisemeQueue s = []" and "currentEmotion s = []" and "emotionTargetMap s = []"
    and "\<not> hasARKitMorphs s" and "in_dict s ''eyeBlinkLeft''"
  shows "faceTrackBlink s = Some b \<Longrightarrow>
           target_of (morphTargetTarget (animate fr s)) ''eyeBlinkLeft'' =
             max 0 (MathUtils_lerp (blinkAmount s) b 0.3)"
    and "faceTrackBlink s = None \<Longrightarrow> blinkAmount s = 0 \<Longrightarrow> blinkTarget s = 0 \<Longrightarrow>
         \<not> elapsedTime s + frame_delta fr - lastBlinkTime s > nextBlinkDelay s \<Longrightarrow>
           target_of (morphTargetTarget (animate fr s)) ''eyeBlinkLeft'' = 0"
    and "isSpeaking (animate fr s)"
proof -
  let ?d = "frame_delta fr"
  let ?s1 = "resetMorphTargets (s\<lparr>elapsedTime := elapsedTime s + ?d\<rparr>)"
  have f1: "isSpeaking ?s1" "lipSyncMode ?s1 = Mode_realtime" "wordVisemeQueue ?s1 = []"
    "currentEmotion ?s1 = []" "emotionTargetMap ?s1 = []"
    using assms by (simp_all add: resetMorphTargets_def)
  have t: "tickLipSync (f_now fr) ?s1 = ?s1" using f1 by (simp add: tickLipSync_def)
  have e: "updateEmotionMorphs ?d ?s1 = ?s1" using f1 by (simp add: updateEmotionMorphs_def)
  let ?s5 = "updateEyeGaze ?d fr ?s1"
  have g: "morphTargetTarget ?s5 = morphTargetTarget ?s1" "faceTrackBlink ?s5 = faceTrackBlink s"
    "blinkAmount ?s5 = blinkAmount s" "blinkTarget ?s5 = blinkTarget s"
    "elapsedTime ?s5 = elapsedTime s + ?d" "lastBlinkTime ?s5 = lastBlinkTime s"
    "nextBlinkDelay ?s5 = nextBlinkDelay s" "in_dict ?s5 ''eyeBlinkLeft''"
    "isSpeaking ?s5"
    using assms(2,7,8)
    by (simp_all add: updateEyeGaze_def Let_def resetMorphTargets_def in_dict_def
        split: option.splits)
  have z: "target_of (morphTargetTarget ?s5) k = 0" for k unfolding g(1) by simp
  have a: "morphTargetTarget (animate fr s) =
      morphTargetTarget (updateBlink (elapsedTime ?s5) ?d fr ?s5)"
    using animate_speaking [OF assms(1), of fr] f1(1) by (simp add: t e Let_def)
  show "target_of (morphTargetTarget (animate fr s)) ''eyeBlinkLeft'' =
      max 0 (MathUtils_lerp (blinkAmount s) b 0.3)" if "faceTrackBlink s = Some b"
    unfolding a using that g(2,3,8) z
    by (simp add: updateBlink_def Let_def target_setMorph in_dict_def)
  show "target_of (morphTargetTarget (animate fr s)) ''eyeBlinkLeft'' = 0"
    if "faceTrackBlink s = None" "blinkAmount s = 0" "blinkTarget s = 0"
      "\<not> elapsedTime s + frame_delta fr - lastBlinkTime s > nextBlinkDelay s"
    unfolding a using that g(2-8) z
    by (simp add: updateBlink_def Let_def target_setMorph in_dict_def)
  have "lip_state (animate fr s) = lip_state ?s1"
    using assms(1) by (simp add: lip_state_animate t)
  then have "lip_state (animate fr s) = lip_state s" by simp
  then show "isSpeaking (animate fr s)" using assms(2) by (simp add: lip_state_def)
qed


lemma speaking_rig_fields:
  "avatarLoaded (startRealtimeLipSync oculus_rig)" "isSpeaking (startRealtimeLipSync oculus_rig)"
  "lipSyncMode (startRealtimeLipSync oculus_rig) = Mode_realtime"
  "wordVisemeQueue (startRealtimeLipSync oculus_rig) = []"
  "currentEmotion (startRealtimeLipSync oculus_rig) = []"
  "emotionTargetMap (startRealtimeLipSync oculus_rig) = []"
  "\<not> hasARKitMorphs (startRealtimeLipSync oculus_rig)"
  "in_dict (startRealtimeLipSync oculus_rig) ''eyeBlinkLeft''"
  "faceTrackBlink (startRealtimeLipSync oculus_rig) = None"
  "blinkAmount (startRealtimeLipSync oculus_rig) = 0"
  "blinkTarget (startRealtimeLipSync oculus_rig) = 0"
  "elapsedTime (startRealtimeLipSync oculus_rig) = 0"
  "lastBlinkTime (startRealtimeLipSync oculus_rig) = 0"
  "nextBlinkDelay (startRealtimeLipSync oculus_rig) = 3"
  by (simp_all add: startRealtimeLipSync_def stopLipSync_def in_dict_def oculus_rig_fields)
     (simp_all add: oculus_rig_def avatar_loaded_def detectMorphCapabilities_def
        initial_client_def)

lemma tracked_rig_fields:
  "avatarLoaded (onFaceResults [closed_eyes_face] (startRealtimeLipSync oculus_rig))"
  "isSpeaking (onFaceResults [closed_eyes_face] (startRealtimeLipSync oculus_rig))"
  "lipSyncMode (onFaceResults [closed_eyes_face] (startRealtimeLipSync oculus_rig))
     = Mode_realtime"
  "wordVisemeQueue (onFaceResults [closed_eyes_face] (startRealtimeLipSync oculus_rig)) = []"
  "currentEmotion (onFaceResults [closed_eyes_face] (startRealtimeLipSync oculus_rig)) = []"
  "emotionTargetMap (onFaceResults [closed_eyes_face] (startRealtimeLipSync oculus_rig)) = []"
  "\<not> hasARKitMorphs (onFaceResults [closed_eyes_face] (startRealtimeLipSync oculus_rig))"
  "in_dict (onFaceResults [closed_eyes_face] (startRealtimeLipSync oculus_rig)) ''eyeBlinkLeft''"
  "faceTrackBlink (onFaceResults [closed_eyes_face] (startRealtimeLipSync oculus_rig)) = Some 1"
  "blinkAmount (onFaceResults [closed_eyes_face] (startRealtimeLipSync oculus_rig)) = 0"
  using speaking_rig_fields
  by (simp_all add: onFaceResults_def Let_def closed_eyes_face_def MathUtils_clamp_def
      in_dict_def)

text \<open>
  Claim C8 as stated fails: while the avatar speaks, a face-tracking result with closed
  eyes makes the next frame drive \<open>eyeBlinkLeft\<close> to 0.3, and the same frame without that
  result leaves it at 0.
\<close>

theorem blink_tracking_counterexample:
  "isSpeaking (onFaceResults [closed_eyes_face] (startRealtimeLipSync oculus_rig)) \<and>
   isSpeaking (animate (frame_at 16)
     (onFaceResults [closed_eyes_face] (startRealtimeLipSync oculus_rig))) \<and>
   target_of (morphTargetTarget (animate (frame_at 16)
     (onFaceResults [closed_eyes_face] (startRealtimeLipSync oculus_rig)))) ''eyeBlinkLeft''
     = 0.3 \<and>
   target_of (morphTargetTarget (animate (frame_at 16) (startRealtimeLipSync oculus_rig)))
     ''eyeBlinkLeft'' = 0"
proof -
  note t = tracked_rig_fields
  note s = speaking_rig_fields
  have a: "target_of (morphTargetTarget (animate (frame_at 16)
     (onFaceResults [closed_eyes_face] (startRealtimeLipSync oculus_rig)))) ''eyeBlinkLeft''
     = max 0 (MathUtils_lerp 0 1 0.3)"
    using quiet_frame_blink(1) [OF t(1-8) t(9), of "frame_at 16"] by (simp add: t(10))
  have b: "isSpeaking (animate (frame_at 16)
     (onFaceResults [closed_eyes_face] (startRealtimeLipSync oculus_rig)))"
    by (rule quiet_frame_blink(3) [OF t(1-8)])
  have c: "target_of (morphTargetTarget (animate (frame_at 16) (startRealtimeLipSync oculus_rig)))
     ''eyeBlinkLeft'' = 0"
    by (rule quiet_frame_blink(2) [OF s(1-8) s(9) s(10) s(11)])
       (simp add: s frame_at_def frame_delta_def)
  from a b c t(2) show ?thesis by (simp add: MathUtils_lerp_def)
qed

lemma face_rig_fields:
  "avatarLoaded face_rig" "\<not> isSpeaking face_rig" "hasARKitMorphs face_rig"
  "\<not> hasOculusVisemes face_rig"
  "currentEmotion face_rig = []" "emotionTargetMap face_rig = []"
  "in_dict face_rig ''jawOpen''" "in_dict face_rig ''mouthSmileLeft''"
  "in_dict face_rig ''browInnerUp''" "in_dict face_rig ''cheekPuff''"
  "morphTargetTarget face_rig = Map.empty" "elapsedTime face_rig = 0"
  by (simp_all add: face_rig_def avatar_loaded_def detectMorphCapabilities_def
      initial_client_def in_dict_def)

lemma speaking_face_rig_fields:
  "avatarLoaded (startRealtimeLipSync face_rig)" "isSpeaking (startRealtimeLipSync face_rig)"
  "lipSyncMode (startRealtimeLipSync face_rig) = Mode_realtime"
  "wordVisemeQueue (startRealtimeLipSync face_rig) = []"
  "currentEmotion (startRealtimeLipSync face_rig) = []"
  "emotionTargetMap (startRealtimeLipSync face_rig) = []"
  "in_dict (startRealtimeLipSync face_rig) ''cheekPuff''"
  "morphTargetTarget (startRealtimeLipSync face_rig) = Map.empty"
  using face_rig_fields
  by (simp_all add: startRealtimeLipSync_def stopLipSync_def in_dict_def)

lemma smiling_face_idle:
  assumes "\<not> isSpeaking s" and "hasARKitMorphs s" and "\<not> hasOculusVisemes s"
    and "in_dict s ''jawOpen''" and "in_dict s ''mouthSmileLeft''" and "in_dict s ''browInnerUp''"
    and "\<And>k. target_of (morphTargetTarget s) k = 0"
  shows "target_of (morphTargetTarget (onFaceResults [smiling_face] s)) ''jawOpen'' = 0.7"
    and "target_of (morphTargetTarget (onFaceResults [smiling_face] s)) ''mouthSmileLeft'' = 0.6"
    and "target_of (morphTargetTarget (onFaceResults [smiling_face] s)) ''browInnerUp'' = 0.5"
  using assms
  by (simp_all add: onFaceResults_def Let_def smiling_face_def MathUtils_clamp_def
      target_setMorph in_dict_def)

lemma gaze_keeps_cheek:
  "target_of (morphTargetTarget (updateEyeGaze d fr s)) ''cheekPuff'' =
     target_of (morphTargetTarget s) ''cheekPuff''"
  unfolding updateEyeGaze_def Let_def by (simp add: target_setMorph)

lemma blink_keeps_cheek:
  "target_of (morphTargetTarget (updateBlink t d fr s)) ''cheekPuff'' =
     target_of (morphTargetTarget s) ''cheekPuff''"
  unfolding updateBlink_def Let_def by (simp add: target_setMorph split: option.splits)

lemma eye_stages_keep_cheek:
  "target_of (morphTargetTarget (updateBlink t d fr (updateEyeGaze d fr s))) ''cheekPuff'' =
     target_of (morphTargetTarget s) ''cheekPuff''"
  by (simp only: blink_keeps_cheek gaze_keeps_cheek)

lemma idle_frame_cheek:
  assumes "avatarLoaded s" and "\<not> isSpeaking s" and "currentEmotion s = []"
    and "emotionTargetMap s = []" and "in_dict s ''cheekPuff''"
  shows "target_of (morphTargetTarget (animate fr s)) ''cheekPuff'' =
     max 0 ((sin ((elapsedTime s + frame_delta fr) * 0.8) + 1) * 0.005)"
proof -
  let ?d = "frame_delta fr"
  let ?s1 = "resetMorphTargets (s\<lparr>elapsedTime := elapsedTime s + ?d\<rparr>)"
  have f1: "\<not> isSpeaking ?s1" "currentEmotion ?s1 = []" "emotionTargetMap ?s1 = []"
    "in_dict ?s1 ''cheekPuff''" "elapsedTime ?s1 = elapsedTime s + ?d"
    using assms by (simp_all add: resetMorphTargets_def in_dict_def)
  have t: "tickLipSync (f_now fr) ?s1 = ?s1" using f1 by (simp add: tickLipSync_def)
  have e: "updateEmotionMorphs ?d ?s1 = ?s1" using f1 by (simp add: updateEmotionMorphs_def)
  let ?s4 = "microExpressions (elapsedTime ?s1) ?s1"
  have q: "\<not> isSpeaking (updateBlink t' ?d fr (updateEyeGaze ?d fr ?s4))" for t'
    using f1(1) by (simp add: isSpeaking_of_lip_state)
  have a: "animate fr s = updateBlink (elapsedTime (updateEyeGaze ?d fr ?s4)) ?d fr
      (updateEyeGaze ?d fr ?s4)"
    using assms(1) f1(1) q unfolding animate_def Let_def by (simp add: t e)
  have "target_of (morphTargetTarget ?s4) ''cheekPuff'' =
      max 0 ((sin ((elapsedTime s + ?d) * 0.8) + 1) * 0.005)"
    using f1(4) unfolding f1(5) microExpressions_def Let_def
    by (simp add: target_setMorph)
  then show ?thesis unfolding a eye_stages_keep_cheek .
qed

lemma speaking_frame_cheek:
  assumes "isSpeaking s" and "lipSyncMode s = Mode_realtime" and "wordVisemeQueue s = []"
    and "currentEmotion s = []" and "emotionTargetMap s = []"
  shows "tickLipSync now (resetMorphTargets (s\<lparr>elapsedTime := t\<rparr>)) =
      resetMorphTargets (s\<lparr>elapsedTime := t\<rparr>)"
    and "updateEmotionMorphs d (resetMorphTargets (s\<lparr>elapsedTime := t\<rparr>)) =
      resetMorphTargets (s\<lparr>elapsedTime := t\<rparr>)"
  using assms
  by (simp_all add: tickLipSync_def updateEmotionMorphs_def resetMorphTargets_def)

text \<open>
  Claim C8, as the code has it. While the avatar speaks, \<open>onFaceResults\<close> writes nothing
  into the accumulator (its mouth, smile and brow contributions are skipped), and a frame
  in which the avatar still speaks after the tick of the controller merges lip sync,
  emotion, eye gaze and blinking only: the idle expressions are left out. Eye gaze and
  blinking keep following the face-tracking values.
\<close>

theorem speaking_suppresses_idle_and_mouth_tracking:
  "(isSpeaking s \<longrightarrow> morphTargetTarget (onFaceResults results s) = morphTargetTarget s) \<and>
   (avatarLoaded s \<and>
    isSpeaking (tickLipSync (f_now fr)
      (resetMorphTargets (s\<lparr>elapsedTime := elapsedTime s + frame_delta fr\<rparr>))) \<longrightarrow>
      morphTargetTarget (animate fr s) =
        (let delta = frame_delta fr;
             s2 = tickLipSync (f_now fr)
                    (resetMorphTargets (s\<lparr>elapsedTime := elapsedTime s + delta\<rparr>));
             s5 = updateEyeGaze delta fr (updateEmotionMorphs delta s2)
         in morphTargetTarget (updateBlink (elapsedTime s5) delta fr s5)))"
  using onFaceResults_speaking [of s results] animate_speaking [of s fr] by blast

theorem speaking_suppresses_idle_and_mouth_tracking_witness:
  "isSpeaking (startRealtimeLipSync face_rig) \<and>
   morphTargetTarget (onFaceResults [smiling_face] (startRealtimeLipSync face_rig)) =
     morphTargetTarget (startRealtimeLipSync face_rig) \<and>
   target_of (morphTargetTarget (onFaceResults [smiling_face] (startRealtimeLipSync face_rig)))
     ''jawOpen'' = 0 \<and>
   target_of (morphTargetTarget (onFaceResults [smiling_face] (startRealtimeLipSync face_rig)))
     ''mouthSmileLeft'' = 0 \<and>
   target_of (morphTargetTarget (onFaceResults [smiling_face] (startRealtimeLipSync face_rig)))
     ''browInnerUp'' = 0 \<and>
   target_of (morphTargetTarget (onFaceResults [smiling_face] face_rig)) ''jawOpen'' = 0.7 \<and>
   target_of (morphTargetTarget (onFaceResults [smiling_face] face_rig)) ''mouthSmileLeft'' = 0.6 \<and>
   target_of (morphTargetTarget (onFaceResults [smiling_face] face_rig)) ''browInnerUp'' = 0.5 \<and>
   avatarLoaded (startRealtimeLipSync face_rig) \<and>
   isSpeaking (tickLipSync (f_now (frame_at 16))
     (resetMorphTargets ((startRealtimeLipSync face_rig)
        \<lparr>elapsedTime := elapsedTime (startRealtimeLipSync face_rig) +
           frame_delta (frame_at 16)\<rparr>))) \<and>
   morphTargetTarget (animate (frame_at 16) (startRealtimeLipSync face_rig)) =
     (let delta = frame_delta (frame_at 16);
          s2 = tickLipSync (f_now (frame_at 16))
                 (resetMorphTargets ((startRealtimeLipSync face_rig)
                    \<lparr>elapsedTime := elapsedTime (startRealtimeLipSync face_rig) + delta\<rparr>));
          s5 = updateEyeGaze delta (frame_at 16) (updateEmotionMorphs delta s2)
      in morphTargetTarget (updateBlink (elapsedTime s5) delta (frame_at 16) s5)) \<and>
   target_of (morphTargetTarget (animate (frame_at 16) (startRealtimeLipSync face_rig)))
     ''cheekPuff'' = 0 \<and>
   0 < target_of (morphTargetTarget (animate (frame_at 16) face_rig)) ''cheekPuff''"
proof -
  let ?S = "startRealtimeLipSync face_rig"
  let ?fr = "frame_at 16"
  note f = face_rig_fields
  note sp = speaking_face_rig_fields
  have z: "target_of (morphTargetTarget face_rig) k = 0" for k
    by (simp add: f(11) target_of_def)
  have c: "isSpeaking (tickLipSync (f_now ?fr)
     (resetMorphTargets (?S\<lparr>elapsedTime := elapsedTime ?S + frame_delta ?fr\<rparr>)))"
    using sp(2-4) by (simp add: tickLipSync_def resetMorphTargets_def)
  note inst = speaking_suppresses_idle_and_mouth_tracking [of ?S "[smiling_face]" ?fr]
  from inst sp(2) have t1: "morphTargetTarget (onFaceResults [smiling_face] ?S) =
      morphTargetTarget ?S" by blast
  have t2: "target_of (morphTargetTarget (onFaceResults [smiling_face] ?S)) k = 0" for k
    unfolding t1 by (simp add: sp(8) target_of_def)
  from inst sp(1) c have t3: "morphTargetTarget (animate ?fr ?S) =
     (let delta = frame_delta ?fr;
          s2 = tickLipSync (f_now ?fr)
                 (resetMorphTargets (?S\<lparr>elapsedTime := elapsedTime ?S + delta\<rparr>));
          s5 = updateEyeGaze delta ?fr (updateEmotionMorphs delta s2)
      in morphTargetTarget (updateBlink (elapsedTime s5) delta ?fr s5))" by blast
  have t4: "target_of (morphTargetTarget (animate ?fr ?S)) ''cheekPuff'' = 0"
    unfolding t3 Let_def speaking_frame_cheek [OF sp(2-6)] eye_stages_keep_cheek by simp
  have "0 < sin ((0.016 :: real) * 0.8)"
    by (rule sin_gt_zero) (use pi_ge_two in simp_all)
  then have "0 < (sin ((elapsedTime face_rig + frame_delta ?fr) * 0.8) + 1) * 0.005"
    unfolding f(12) frame_delta_def frame_at_def by simp
  then have t5: "0 < target_of (morphTargetTarget (animate ?fr face_rig)) ''cheekPuff''"
    unfolding idle_frame_cheek [OF f(1) f(2) f(5) f(6) f(10)] by simp
  note i = smiling_face_idle [OF f(2) f(3) f(4) f(7) f(8) f(9) z]
  from sp(1,2) t1 t2 [of "''jawOpen''"] t2 [of "''mouthSmileLeft''"] t2 [of "''browInnerUp''"]
    i c t3 t4 t5
  show ?thesis by (intro conjI)
qed

end
